theory Spec2Isabelle
  imports Main
begin

section \<open>JavaScript values used by \<^verbatim>\<open>timing.js\<close>\<close>

text \<open>
  The module works on JavaScript Numbers that hold millisecond time values. A Number is
  modelled as \<open>NaN\<close>, one of the two infinities, or an integer \<open>Fin n\<close>. Every finite
  Number that the calculators compute is an integer below \<open>2 ^ 53\<close> in magnitude, where
  IEEE double arithmetic is exact, so integer arithmetic is the arithmetic of the code.
  An argument of a calculator is a JavaScript value: \<open>Undefined\<close> (no argument given, or
  an out-of-range array read) or a Number.
\<close>

datatype number = NaN | PInf | NInf | Fin int

datatype jsvalue = Undefined | Number number

text \<open>\<open>ToBoolean\<close>, as used by \<^verbatim>\<open>date || (+new Date())\<close>: \<open>undefined\<close>, \<open>NaN\<close> and \<open>0\<close> are falsy.\<close>

fun ToBoolean :: "jsvalue \<Rightarrow> bool" where
  "ToBoolean Undefined = False"
| "ToBoolean (Number NaN) = False"
| "ToBoolean (Number (Fin n)) = (n \<noteq> 0)"
| "ToBoolean (Number PInf) = True"
| "ToBoolean (Number NInf) = True"

text \<open>\<^verbatim>\<open>a + b\<close>, \<^verbatim>\<open>a > b\<close> and \<^verbatim>\<open>a < b\<close> on Numbers.\<close>

fun num_add :: "number \<Rightarrow> number \<Rightarrow> number" where
  "num_add (Fin a) (Fin b) = Fin (a + b)"
| "num_add NaN _ = NaN"
| "num_add _ NaN = NaN"
| "num_add PInf NInf = NaN"
| "num_add NInf PInf = NaN"
| "num_add PInf _ = PInf"
| "num_add _ PInf = PInf"
| "num_add NInf _ = NInf"
| "num_add _ NInf = NInf"

fun num_lt :: "number \<Rightarrow> number \<Rightarrow> bool" where
  "num_lt (Fin a) (Fin b) = (a < b)"
| "num_lt NaN _ = False"
| "num_lt _ NaN = False"
| "num_lt NInf NInf = False"
| "num_lt NInf _ = True"
| "num_lt _ NInf = False"
| "num_lt PInf _ = False"
| "num_lt _ PInf = True"

definition num_gt :: "number \<Rightarrow> number \<Rightarrow> bool" where
  "num_gt a b = num_lt b a"

text \<open>
  \<^verbatim>\<open>Math.round(m / 60)\<close>: \<open>Math.round\<close> returns the integer nearest to its argument, the
  larger one at a tie, which is \<open>\<lfloor>m / 60 + 1 / 2\<rfloor>\<close>.
\<close>

fun Math_round_div :: "number \<Rightarrow> int \<Rightarrow> number" where
  "Math_round_div (Fin m) d = Fin ((2 * m + d) div (2 * d))"
| "Math_round_div NaN d = NaN"
| "Math_round_div PInf d = PInf"
| "Math_round_div NInf d = NInf"

section \<open>The ECMAScript Date abstract operations\<close>

definition msPerSecond :: int where "msPerSecond = 1000"
definition msPerMinute :: int where "msPerMinute = 60000"
definition msPerHour :: int where "msPerHour = 3600000"
definition msPerDay :: int where "msPerDay = 86400000"

definition maxTime :: int where "maxTime = 8640000000000000"

definition Day :: "int \<Rightarrow> int" where
  "Day t = t div msPerDay"

definition TimeWithinDay :: "int \<Rightarrow> int" where
  "TimeWithinDay t = t mod msPerDay"

definition DaysInYear :: "int \<Rightarrow> int" where
  "DaysInYear y =
     (if y mod 4 \<noteq> 0 then 365
      else if y mod 100 \<noteq> 0 then 366
      else if y mod 400 \<noteq> 0 then 365
      else 366)"

definition DayFromYear :: "int \<Rightarrow> int" where
  "DayFromYear y =
     365 * (y - 1970) + (y - 1969) div 4 - (y - 1901) div 100 + (y - 1601) div 400"

text \<open>
  \<open>YearFromTime t\<close> is the largest year \<open>y\<close> whose first day is not after \<open>t\<close>. It is
  computed from the mean length of a Gregorian year (\<open>146097 / 400\<close> days), followed by a
  correction of at most one year; \<open>DayFromYear_YearFromTime\<close> below shows that the result
  is the year the specification asks for.
\<close>

definition YearFromDay :: "int \<Rightarrow> int" where
  "YearFromDay d =
     (let y = 1970 + (400 * d) div 146097 in
      if d < DayFromYear y then y - 1
      else if DayFromYear (y + 1) \<le> d then y + 1
      else y)"

definition YearFromTime :: "int \<Rightarrow> int" where
  "YearFromTime t = YearFromDay (Day t)"

definition InLeapYear :: "int \<Rightarrow> int" where
  "InLeapYear t = (if DaysInYear (YearFromTime t) = 366 then 1 else 0)"

definition DayWithinYear :: "int \<Rightarrow> int" where
  "DayWithinYear t = Day t - DayFromYear (YearFromTime t)"

text \<open>The day within the year on which month \<open>m\<close> (0 to 11) starts.\<close>

definition MonthStart :: "int \<Rightarrow> int \<Rightarrow> int" where
  "MonthStart m leap =
     (if m = 0 then 0
      else if m = 1 then 31
      else if m = 2 then 59 + leap
      else if m = 3 then 90 + leap
      else if m = 4 then 120 + leap
      else if m = 5 then 151 + leap
      else if m = 6 then 181 + leap
      else if m = 7 then 212 + leap
      else if m = 8 then 243 + leap
      else if m = 9 then 273 + leap
      else if m = 10 then 304 + leap
      else 334 + leap)"

definition MonthFromTime :: "int \<Rightarrow> int" where
  "MonthFromTime t =
     (let d = DayWithinYear t; leap = InLeapYear t in
      if d < 31 then 0
      else if d < 59 + leap then 1
      else if d < 90 + leap then 2
      else if d < 120 + leap then 3
      else if d < 151 + leap then 4
      else if d < 181 + leap then 5
      else if d < 212 + leap then 6
      else if d < 243 + leap then 7
      else if d < 273 + leap then 8
      else if d < 304 + leap then 9
      else if d < 334 + leap then 10
      else 11)"

definition DateFromTime :: "int \<Rightarrow> int" where
  "DateFromTime t = DayWithinYear t - MonthStart (MonthFromTime t) (InLeapYear t) + 1"

definition HourFromTime :: "int \<Rightarrow> int" where
  "HourFromTime t = (t div msPerHour) mod 24"

definition MinFromTime :: "int \<Rightarrow> int" where
  "MinFromTime t = (t div msPerMinute) mod 60"

definition SecFromTime :: "int \<Rightarrow> int" where
  "SecFromTime t = (t div msPerSecond) mod 60"

definition msFromTime :: "int \<Rightarrow> int" where
  "msFromTime t = t mod msPerSecond"

fun MakeTime :: "number \<Rightarrow> number \<Rightarrow> number \<Rightarrow> number \<Rightarrow> number" where
  "MakeTime (Fin h) (Fin m) (Fin s) (Fin milli) =
     Fin (h * msPerHour + m * msPerMinute + s * msPerSecond + milli)"
| "MakeTime _ _ _ _ = NaN"

text \<open>
  \<open>MakeDay\<close>: the day number of the first day of month \<open>mn\<close> of year \<open>ym\<close>, plus \<open>dt - 1\<close>.
\<close>

fun MakeDay :: "number \<Rightarrow> number \<Rightarrow> number \<Rightarrow> number" where
  "MakeDay (Fin y) (Fin m) (Fin dt) =
     (let ym = y + m div 12;
          mn = m mod 12;
          leap = (if DaysInYear ym = 366 then 1 else 0)
      in Fin (DayFromYear ym + MonthStart mn leap + dt - 1))"
| "MakeDay _ _ _ = NaN"

fun MakeDate :: "number \<Rightarrow> number \<Rightarrow> number" where
  "MakeDate (Fin day) (Fin time) = Fin (day * msPerDay + time)"
| "MakeDate _ _ = NaN"

fun TimeClip :: "number \<Rightarrow> number" where
  "TimeClip (Fin t) = (if \<bar>t\<bar> > maxTime then NaN else Fin t)"
| "TimeClip _ = NaN"

text \<open>
  The host's time zone is its \<open>LocalTZA\<close> function: \<open>LocalTZA t True\<close> is the offset of
  local time from UTC, in milliseconds, at the UTC time value \<open>t\<close>, and \<open>LocalTZA t False\<close>
  is the offset to use for the local time value \<open>t\<close>.
\<close>

type_synonym tzone = "int \<Rightarrow> bool \<Rightarrow> int"

definition LocalTime :: "tzone \<Rightarrow> int \<Rightarrow> int" where
  "LocalTime tz t = t + tz t True"

fun UTC :: "tzone \<Rightarrow> number \<Rightarrow> number" where
  "UTC tz (Fin t) = Fin (t - tz t False)"
| "UTC tz _ = NaN"

section \<open>Date objects\<close>

text \<open>
  A \<^verbatim>\<open>Date\<close> object is modelled by its time value: \<open>NaN\<close> for an invalid date, or
  \<open>Fin t\<close> with \<open>\<bar>t\<bar> \<le> maxTime\<close>. \<open>new_Date v\<close> is \<^verbatim>\<open>new Date(v)\<close> for a Number or a
  Date \<open>v\<close>, and also the final \<^verbatim>\<open>+new Date(date)\<close> of each calculator. The getters and
  setters without \<open>UTC\<close> in their name work on local time. An optional argument of a
  setter that the call leaves out is \<open>None\<close>.
\<close>

definition new_Date :: "number \<Rightarrow> number" where
  "new_Date v = TimeClip v"

fun localField :: "(int \<Rightarrow> int) \<Rightarrow> tzone \<Rightarrow> number \<Rightarrow> number" where
  "localField f tz (Fin t) = Fin (f (LocalTime tz t))"
| "localField f tz _ = NaN"

fun utcField :: "(int \<Rightarrow> int) \<Rightarrow> number \<Rightarrow> number" where
  "utcField f (Fin t) = Fin (f t)"
| "utcField f _ = NaN"

definition getDate :: "tzone \<Rightarrow> number \<Rightarrow> number" where
  "getDate = localField DateFromTime"

definition getHours :: "tzone \<Rightarrow> number \<Rightarrow> number" where
  "getHours = localField HourFromTime"

definition getMinutes :: "tzone \<Rightarrow> number \<Rightarrow> number" where
  "getMinutes = localField MinFromTime"

definition getSeconds :: "tzone \<Rightarrow> number \<Rightarrow> number" where
  "getSeconds = localField SecFromTime"

definition getMilliseconds :: "tzone \<Rightarrow> number \<Rightarrow> number" where
  "getMilliseconds = localField msFromTime"

definition getUTCFullYear :: "number \<Rightarrow> number" where
  "getUTCFullYear = utcField YearFromTime"

definition getUTCMonth :: "number \<Rightarrow> number" where
  "getUTCMonth = utcField MonthFromTime"

definition getUTCDate :: "number \<Rightarrow> number" where
  "getUTCDate = utcField DateFromTime"

definition getUTCHours :: "number \<Rightarrow> number" where
  "getUTCHours = utcField HourFromTime"

definition getUTCMinutes :: "number \<Rightarrow> number" where
  "getUTCMinutes = utcField MinFromTime"

definition orField :: "number option \<Rightarrow> int \<Rightarrow> number" where
  "orField arg dflt = (case arg of None \<Rightarrow> Fin dflt | Some v \<Rightarrow> v)"

fun setDate :: "tzone \<Rightarrow> number \<Rightarrow> number \<Rightarrow> number" where
  "setDate tz (Fin t0) dt =
     (let t = LocalTime tz t0;
          newDate = MakeDate (MakeDay (Fin (YearFromTime t)) (Fin (MonthFromTime t)) dt)
                             (Fin (TimeWithinDay t))
      in TimeClip (UTC tz newDate))"
| "setDate tz _ dt = NaN"

fun setHours :: "tzone \<Rightarrow> number \<Rightarrow> number \<Rightarrow> number option \<Rightarrow> number option \<Rightarrow> number option \<Rightarrow> number" where
  "setHours tz (Fin t0) hour minute sec ms =
     (let t = LocalTime tz t0;
          m = orField minute (MinFromTime t);
          s = orField sec (SecFromTime t);
          milli = orField ms (msFromTime t);
          date = MakeDate (Fin (Day t)) (MakeTime hour m s milli)
      in TimeClip (UTC tz date))"
| "setHours tz _ hour minute sec ms = NaN"

fun setMinutes :: "tzone \<Rightarrow> number \<Rightarrow> number \<Rightarrow> number option \<Rightarrow> number option \<Rightarrow> number" where
  "setMinutes tz (Fin t0) minute sec ms =
     (let t = LocalTime tz t0;
          s = orField sec (SecFromTime t);
          milli = orField ms (msFromTime t);
          date = MakeDate (Fin (Day t)) (MakeTime (Fin (HourFromTime t)) minute s milli)
      in TimeClip (UTC tz date))"
| "setMinutes tz _ minute sec ms = NaN"

fun setSeconds :: "tzone \<Rightarrow> number \<Rightarrow> number \<Rightarrow> number option \<Rightarrow> number" where
  "setSeconds tz (Fin t0) sec ms =
     (let t = LocalTime tz t0;
          milli = orField ms (msFromTime t);
          date = MakeDate (Fin (Day t))
                   (MakeTime (Fin (HourFromTime t)) (Fin (MinFromTime t)) sec milli)
      in TimeClip (UTC tz date))"
| "setSeconds tz _ sec ms = NaN"

fun setMilliseconds :: "tzone \<Rightarrow> number \<Rightarrow> number \<Rightarrow> number" where
  "setMilliseconds tz (Fin t0) ms =
     (let t = LocalTime tz t0;
          time = MakeTime (Fin (HourFromTime t)) (Fin (MinFromTime t)) (Fin (SecFromTime t)) ms
      in TimeClip (UTC tz (MakeDate (Fin (Day t)) time)))"
| "setMilliseconds tz _ ms = NaN"

section \<open>The boundary calculators\<close>

text \<open>
  \<open>date_or_now date clk\<close> is \<^verbatim>\<open>date || (+new Date())\<close>, where \<open>clk\<close> is what the system
  clock reads when the right operand is evaluated. Each calculator takes the host's time
  zone, that clock reading and its argument, and returns the Number the JavaScript
  function returns.
\<close>

fun date_or_now :: "jsvalue \<Rightarrow> int \<Rightarrow> number" where
  "date_or_now Undefined clk = Fin clk"
| "date_or_now (Number n) clk = (if ToBoolean (Number n) then n else Fin clk)"

definition nextday :: "tzone \<Rightarrow> int \<Rightarrow> jsvalue \<Rightarrow> number" where
  "nextday tz clk date =
     (let d0 = new_Date (date_or_now date clk);
          d1 = setDate tz d0 (num_add (getDate tz d0) (Fin 1));
          d2 = setHours tz d1 (Fin 0) (Some (Fin 0)) (Some (Fin 0)) None;
          d3 = setMinutes tz d2 (Fin 0) (Some (Fin 0)) (Some (Fin 0))
      in new_Date d3)"

definition nextHour :: "tzone \<Rightarrow> int \<Rightarrow> jsvalue \<Rightarrow> number" where
  "nextHour tz clk date =
     (let d0 = new_Date (date_or_now date clk);
          nh = num_add (getHours tz d0) (Math_round_div (getMinutes tz d0) 60);
          d1 = (if num_gt nh (Fin 23)
                then (let d = setHours tz d0 (Fin 0) None None None
                      in setDate tz d (num_add (getDate tz d) (Fin 1)))
                else setHours tz d0 nh None None None);
          d2 = setMinutes tz d1 (Fin 0) (Some (Fin 0)) (Some (Fin 0))
      in new_Date d2)"

definition nextMinute :: "tzone \<Rightarrow> int \<Rightarrow> jsvalue \<Rightarrow> number" where
  "nextMinute tz clk date =
     (let d0 = new_Date (date_or_now date clk);
          d1 = setMinutes tz d0 (num_add (getMinutes tz d0) (Fin 1)) None None;
          d2 = setSeconds tz d1 (Fin 0) (Some (Fin 0))
      in new_Date d2)"

definition nextSecond :: "tzone \<Rightarrow> int \<Rightarrow> jsvalue \<Rightarrow> number" where
  "nextSecond tz clk date =
     (let d0 = new_Date (date_or_now date clk);
          d1 = setSeconds tz d0 (num_add (getSeconds tz d0) (Fin 1)) None;
          d2 = setMilliseconds tz d1 (Fin 0)
      in new_Date d2)"

section \<open>The military timestamp codec\<close>

text \<open>
  A JavaScript string is a list of its code units; the model covers strings whose code
  units are below 256. \<open>Number_toString\<close> is \<^verbatim>\<open>Number.prototype.toString\<close> on the
  Numbers of the model below \<open>10 ^ 21\<close> in magnitude, which covers every field of a time
  value.
\<close>

definition digit_char :: "nat \<Rightarrow> char" where
  "digit_char n = char_of (48 + n)"

fun digits :: "nat \<Rightarrow> string" where
  "digits n = (if n < 10 then [digit_char n] else digits (n div 10) @ [digit_char (n mod 10)])"

fun Number_toString :: "number \<Rightarrow> string" where
  "Number_toString NaN = ''NaN''"
| "Number_toString PInf = ''Infinity''"
| "Number_toString NInf = ''-Infinity''"
| "Number_toString (Fin n) = (if n < 0 then CHR ''-'' # digits (nat (- n)) else digits (nat n))"

definition padStart :: "nat \<Rightarrow> char \<Rightarrow> string \<Rightarrow> string" where
  "padStart n c s = replicate (n - length s) c @ s"

definition unixToMilitary :: "number \<Rightarrow> string" where
  "unixToMilitary unixTimestamp =
     (let date = new_Date unixTimestamp;
          year = getUTCFullYear date;
          month = padStart 2 CHR ''0'' (Number_toString (num_add (getUTCMonth date) (Fin 1)));
          day = padStart 2 CHR ''0'' (Number_toString (getUTCDate date));
          hours = padStart 2 CHR ''0'' (Number_toString (getUTCHours date));
          minutes = padStart 2 CHR ''0'' (Number_toString (getUTCMinutes date))
      in Number_toString year @ ''/'' @ month @ ''/'' @ day @ ''/'' @ hours @ ''/'' @ minutes)"

text \<open>\<^verbatim>\<open>s.split(sep)\<close> for a separator of one code unit; the result is never empty.\<close>

fun split :: "char \<Rightarrow> string \<Rightarrow> string list" where
  "split sep [] = [[]]"
| "split sep (c # cs) =
     (if c = sep then [] # split sep cs
      else (case split sep cs of [] \<Rightarrow> [[c]] | f # fs \<Rightarrow> (c # f) # fs))"

text \<open>
  An element of the destructuring pattern \<^verbatim>\<open>[year, month, day, hours, minutes]\<close>:
  \<open>None\<close> is \<open>undefined\<close>, for an index past the end of the array.
\<close>

definition element :: "string list \<Rightarrow> nat \<Rightarrow> string option" where
  "element fields i = (if i < length fields then Some (fields ! i) else None)"

text \<open>
  \<open>StringToNumber\<close>. White space is trimmed; the empty string is \<open>0\<close>; a string that is not
  a \<open>StrNumericLiteral\<close> is \<open>NaN\<close>. The value is computed for \<^verbatim>\<open>Infinity\<close> and for
  optionally signed decimal integers up to \<open>literalBound\<close> in magnitude, which covers every field that
  \<open>unixToMilitary\<close> writes. For the other numeric literals (larger integers, fractions,
  exponents, radix prefixes) the result is a Number that the integer model
  does not represent, or on which engines differ in \<open>MakeDay\<close>; for those the model
  returns \<open>None\<close> and says nothing about the value.
\<close>

definition literalBound :: int where "literalBound = 300000"

definition isWhiteSpace :: "char \<Rightarrow> bool" where
  "isWhiteSpace c = (of_char c \<in> {9, 10, 11, 12, 13, 32, 160 :: nat})"

definition trim :: "string \<Rightarrow> string" where
  "trim s = rev (dropWhile isWhiteSpace (rev (dropWhile isWhiteSpace s)))"

definition isDigit :: "char \<Rightarrow> bool" where
  "isDigit c = (c \<in> set ''0123456789'')"

definition isDecimalDigits :: "string \<Rightarrow> bool" where
  "isDecimalDigits s = (s \<noteq> [] \<and> list_all isDigit s)"

fun stripSign :: "string \<Rightarrow> string" where
  "stripSign [] = []"
| "stripSign (c # cs) = (if c = CHR ''+'' \<or> c = CHR ''-'' then cs else c # cs)"

definition isExponentChar :: "char \<Rightarrow> bool" where
  "isExponentChar c = (c = CHR ''e'' \<or> c = CHR ''E'')"

definition isUnsignedDecimalLiteral :: "string \<Rightarrow> bool" where
  "isUnsignedDecimalLiteral u =
     (u = ''Infinity'' \<or>
      (let mant = takeWhile (\<lambda>c. \<not> isExponentChar c) u;
           expo = dropWhile (\<lambda>c. \<not> isExponentChar c) u;
           ip = takeWhile (\<lambda>c. c \<noteq> CHR ''.'') mant;
           fr = dropWhile (\<lambda>c. c \<noteq> CHR ''.'') mant
       in (if fr = [] then isDecimalDigits ip
           else (isDecimalDigits ip \<and> (tl fr = [] \<or> isDecimalDigits (tl fr)))
                \<or> (ip = [] \<and> isDecimalDigits (tl fr)))
          \<and> (expo = [] \<or> isDecimalDigits (stripSign (tl expo)))))"

fun isNonDecimalIntegerLiteral :: "string \<Rightarrow> bool" where
  "isNonDecimalIntegerLiteral (z # x # ds) =
     (z = CHR ''0'' \<and> ds \<noteq> [] \<and>
      ((x \<in> set ''xX'' \<and> list_all (\<lambda>c. c \<in> set ''0123456789abcdefABCDEF'') ds) \<or>
       (x \<in> set ''oO'' \<and> list_all (\<lambda>c. c \<in> set ''01234567'') ds) \<or>
       (x \<in> set ''bB'' \<and> list_all (\<lambda>c. c \<in> set ''01'') ds)))"
| "isNonDecimalIntegerLiteral _ = False"

definition isStrNumericLiteral :: "string \<Rightarrow> bool" where
  "isStrNumericLiteral s = (isNonDecimalIntegerLiteral s \<or> isUnsignedDecimalLiteral (stripSign s))"

definition digit_value :: "char \<Rightarrow> int" where
  "digit_value c = int (of_char c) - 48"

definition decimal_value :: "string \<Rightarrow> int" where
  "decimal_value s = foldl (\<lambda>a c. 10 * a + digit_value c) 0 s"

definition StringToNumber :: "string \<Rightarrow> number option" where
  "StringToNumber str =
     (let s = trim str in
      if s = [] then Some (Fin 0)
      else if stripSign s = ''Infinity'' then Some (if hd s = CHR ''-'' then NInf else PInf)
      else if isDecimalDigits (stripSign s) then
        (let v = (if hd s = CHR ''-'' then - decimal_value (stripSign s)
                  else decimal_value (stripSign s))
         in if \<bar>v\<bar> \<le> literalBound then Some (Fin v) else None)
      else if isStrNumericLiteral s then None
      else Some NaN)"

text \<open>\<open>ToNumber\<close> of an element of the array: \<open>undefined\<close> converts to \<open>NaN\<close>.\<close>

fun ToNumber :: "string option \<Rightarrow> number option" where
  "ToNumber None = Some NaN"
| "ToNumber (Some s) = StringToNumber s"

fun MakeFullYear :: "number \<Rightarrow> number" where
  "MakeFullYear (Fin y) = (if 0 \<le> y \<and> y \<le> 99 then Fin (1900 + y) else Fin y)"
| "MakeFullYear v = v"

text \<open>\<^verbatim>\<open>Date.UTC(year, month, date, hours, minutes)\<close>; seconds and milliseconds are \<open>0\<close>.\<close>

definition Date_UTC :: "number \<Rightarrow> number \<Rightarrow> number \<Rightarrow> number \<Rightarrow> number \<Rightarrow> number" where
  "Date_UTC year month date hours minutes =
     TimeClip (MakeDate (MakeDay (MakeFullYear year) month date)
                        (MakeTime hours minutes (Fin 0) (Fin 0)))"

definition isFinite :: "number \<Rightarrow> bool" where
  "isFinite v = (case v of Fin n \<Rightarrow> True | _ \<Rightarrow> False)"

text \<open>
  \<open>Date.UTC\<close> on arguments of which some may be outside the integer model. A \<open>NaN\<close> or
  infinite argument makes the result \<open>NaN\<close> whatever the other Numbers are; otherwise the
  result is determined only when every argument is.
\<close>

definition Date_UTC_partial :: "number option list \<Rightarrow> number option" where
  "Date_UTC_partial args =
     (if list_ex (\<lambda>a. case a of None \<Rightarrow> False | Some v \<Rightarrow> \<not> isFinite v) args then Some NaN
      else (case args of
              [Some year, Some month, Some date, Some hours, Some minutes] \<Rightarrow>
                Some (Date_UTC year month date hours minutes)
            | _ \<Rightarrow> None))"

definition militaryToUnix :: "string \<Rightarrow> number option" where
  "militaryToUnix formattedString =
     (let fields = split CHR ''/'' formattedString;
          year = ToNumber (element fields 0);
          month = ToNumber (element fields 1);
          day = ToNumber (element fields 2);
          hours = ToNumber (element fields 3);
          minutes = ToNumber (element fields 4)
      in Date_UTC_partial
           [year, map_option (\<lambda>m. num_add m (Fin (- 1))) month, day, hours, minutes])"

section \<open>The rolling scheduler\<close>

text \<open>
  The property names that \<^verbatim>\<open>every\<close> can be called with and that name a calculator or
  an entry of \<^verbatim>\<open>settings\<close>. The calculator for days is \<^verbatim>\<open>nextday\<close>; the entry of
  \<^verbatim>\<open>settings\<close> for days is \<^verbatim>\<open>nextDay\<close>.
\<close>

datatype timing = Key_nextday | Key_nextDay | Key_nextHour | Key_nextMinute | Key_nextSecond

datatype error = TypeError

text \<open>
  The mutable properties of the module: \<^verbatim>\<open>now\<close>, \<^verbatim>\<open>upcomming\<close> and \<^verbatim>\<open>settings\<close>. A
  property of \<^verbatim>\<open>settings\<close> that is absent reads as \<open>undefined\<close>, here \<open>None\<close>.
\<close>

record module =
  now :: jsvalue
  upcomming :: "number list"
  settings :: "timing \<rightharpoonup> int"

definition initial_settings :: "timing \<rightharpoonup> int" where
  "initial_settings =
     [Key_nextDay \<mapsto> 7, Key_nextHour \<mapsto> 24, Key_nextMinute \<mapsto> 60, Key_nextSecond \<mapsto> 60]"

definition initial :: module where
  "initial = \<lparr>now = Undefined, upcomming = [], settings = initial_settings\<rparr>"

text \<open>\<^verbatim>\<open>this[timing]\<close>: the calculator of that name, or \<open>undefined\<close>.\<close>

fun calculator :: "timing \<Rightarrow> (tzone \<Rightarrow> int \<Rightarrow> jsvalue \<Rightarrow> number) option" where
  "calculator Key_nextday = Some nextday"
| "calculator Key_nextDay = None"
| "calculator Key_nextHour = Some nextHour"
| "calculator Key_nextMinute = Some nextMinute"
| "calculator Key_nextSecond = Some nextSecond"

text \<open>\<^verbatim>\<open>this.upcomming[this.upcomming.length - 1]\<close>\<close>

definition tail_entry :: "number list \<Rightarrow> jsvalue" where
  "tail_entry q = (if q = [] then Undefined else Number (last q))"

text \<open>
  The system clock is read several times during one call of \<^verbatim>\<open>every\<close>. \<open>clock k\<close> is what
  the \<open>k\<close>-th evaluation of \<^verbatim>\<open>+new Date()\<close> returns; the number of evaluations so far is
  threaded through. \<open>fill\<close> is the \<^verbatim>\<open>while\<close> loop: a calculator evaluates
  \<^verbatim>\<open>+new Date()\<close> only when its argument is falsy. Calling \<open>undefined\<close> throws a
  \<open>TypeError\<close>.
\<close>

function fill :: "tzone \<Rightarrow> (nat \<Rightarrow> int) \<Rightarrow> timing \<Rightarrow> (timing \<rightharpoonup> int) \<Rightarrow> nat \<times> number list
    \<Rightarrow> error + nat \<times> number list" where
  "fill tz clock tm sets (k, q) =
     (case sets tm of
        None \<Rightarrow> Inr (k, q)
      | Some n \<Rightarrow>
          if int (length q) < n then
            (case calculator tm of
               None \<Rightarrow> Inl TypeError
             | Some f \<Rightarrow>
                 fill tz clock tm sets
                   (if ToBoolean (tail_entry q) then k else Suc k,
                    q @ [f tz (clock k) (tail_entry q)]))
          else Inr (k, q))"
  by pat_completeness auto
termination
  by (relation "measure (\<lambda>(tz, clock, tm, sets, k, q).
        case sets tm of None \<Rightarrow> 0 | Some n \<Rightarrow> nat (n - int (length q)))") auto

text \<open>
  \<^verbatim>\<open>every(timing, doSomething)\<close>. The result is the new state of the module, the number
  of clock readings, and the arguments of the calls of \<^verbatim>\<open>doSomething\<close> in order.
\<close>

definition every :: "tzone \<Rightarrow> (nat \<Rightarrow> int) \<Rightarrow> nat \<Rightarrow> timing \<Rightarrow> module
    \<Rightarrow> error + module \<times> nat \<times> string list" where
  "every tz clock k tm st =
     (case fill tz clock tm (settings st) (k, upcomming st) of
        Inl e \<Rightarrow> Inl e
      | Inr (k1, q) \<Rightarrow>
          (case q of
             [] \<Rightarrow> Inr (st\<lparr>upcomming := q\<rparr>, Suc k1, [])
           | front # rest \<Rightarrow>
               if num_lt front (Fin (clock k1)) then
                 Inr (st\<lparr>now := Number front, upcomming := rest\<rparr>, Suc k1,
                      [unixToMilitary front])
               else Inr (st\<lparr>upcomming := q\<rparr>, Suc k1, [])))"

section \<open>Hosts\<close>

text \<open>A host whose local time is at the same offset from UTC at every instant.\<close>

definition fixedZone :: "int \<Rightarrow> tzone" where
  "fixedZone off = (\<lambda>t isUTC. off)"

text \<open>
  A host whose clocks go back one hour, from four to five hours behind UTC, at
  2023-11-05T06:00:00Z (the end of daylight saving time in New York). A local time value
  of the repeated hour is read with the offset before the transition.
\<close>

definition fallBackZone :: tzone where
  "fallBackZone t isUTC =
     (if isUTC then (if t < 1699164000000 then - 14400000 else - 18000000)
      else (if t < 1699164000000 - 14400000 then - 14400000 else - 18000000))"

text \<open>
  The rounded hour of the specification: the hour of a local time value, plus one when
  its minutes are \<open>30\<close> or more.
\<close>

definition roundedHour :: "int \<Rightarrow> int" where
  "roundedHour t = HourFromTime t + (if 30 \<le> MinFromTime t then 1 else 0)"



text \<open>What a call of \<^verbatim>\<open>every\<close> passed to \<^verbatim>\<open>doSomething\<close>, and the queue it left.\<close>

definition callbacks :: "error + module \<times> nat \<times> string list \<Rightarrow> string list" where
  "callbacks r = (case r of Inl e \<Rightarrow> [] | Inr (st, k, calls) \<Rightarrow> calls)"

definition queue_after :: "error + module \<times> nat \<times> string list \<Rightarrow> number list" where
  "queue_after r = (case r of Inl e \<Rightarrow> [] | Inr (st, k, calls) \<Rightarrow> upcomming st)"

text \<open>
  A queue of finite entries \<open>map Fin vs\<close> as the scheduler keeps it for one boundary kind:
  non-decreasing, with positive entries below a bound that grows with the length, each
  satisfying \<open>good\<close>. For hours, \<open>good\<close> is to lie on a local hour boundary.
\<close>

definition queue_inv :: "(int \<Rightarrow> bool) \<Rightarrow> int \<Rightarrow> int list \<Rightarrow> bool" where
  "queue_inv good B vs =
     (sorted vs \<and> list_all (\<lambda>v. good v \<and> 0 < v \<and> v \<le> B + int (length vs) * 3600000) vs)"

definition on_boundary :: "timing \<Rightarrow> int \<Rightarrow> int \<Rightarrow> bool" where
  "on_boundary tm off v = (if tm = Key_nextHour then (v + off) mod 3600000 = 0 else True)"

declare fill.simps [simp del] digits.simps [simp del]

declare setDate.simps(1) [simp del] setHours.simps(1) [simp del] setMinutes.simps(1) [simp del]
  setSeconds.simps(1) [simp del] setMilliseconds.simps(1) [simp del]

section \<open>Time fields and setters\<close>

lemma sec_ms: "SecFromTime t * 1000 + msFromTime t = t mod 60000"
  unfolding SecFromTime_def msFromTime_def msPerSecond_def
  using zmod_zmult2_eq [of 60 t 1000] by simp

lemma min_sec: "MinFromTime t * 60000 + t mod 60000 = t mod 3600000"
  unfolding MinFromTime_def msPerMinute_def
  using zmod_zmult2_eq [of 60 t 60000] by simp

lemma hour_min: "HourFromTime t * 3600000 + t mod 3600000 = t mod 86400000"
  unfolding HourFromTime_def msPerHour_def
  using zmod_zmult2_eq [of 24 t 3600000] by simp

lemma day_time: "Day t * 86400000 + t mod 86400000 = t"
  unfolding Day_def msPerDay_def by simp

lemma field_ranges:
  "0 \<le> HourFromTime t" "HourFromTime t < 24"
  "0 \<le> MinFromTime t" "MinFromTime t < 60"
  "0 \<le> SecFromTime t" "SecFromTime t < 60"
  "0 \<le> msFromTime t" "msFromTime t < 1000"
  unfolding HourFromTime_def MinFromTime_def SecFromTime_def msFromTime_def msPerSecond_def
  by simp_all

lemma MonthFromTime_range: "0 \<le> MonthFromTime t \<and> MonthFromTime t \<le> 11"
  unfolding MonthFromTime_def Let_def by simp

lemma MakeDay_fields:
  "MakeDay (Fin (YearFromTime t)) (Fin (MonthFromTime t)) (Fin dt) =
     Fin (Day t + dt - DateFromTime t)"
proof -
  have m: "MonthFromTime t div 12 = 0" "MonthFromTime t mod 12 = MonthFromTime t"
    using MonthFromTime_range [of t] by simp_all
  show ?thesis
    by (simp add: m DateFromTime_def DayWithinYear_def InLeapYear_def)
qed

lemma local_fixed: "LocalTime (fixedZone off) t = t + off"
  by (simp add: LocalTime_def fixedZone_def)

lemma UTC_fixed: "UTC (fixedZone off) (Fin t) = Fin (t - off)"
  by (simp add: fixedZone_def)



lemma time_fields:
  "Day t * 86400000 + HourFromTime t * 3600000 + MinFromTime t * 60000
     + SecFromTime t * 1000 + msFromTime t = t"
  "Day t * 86400000 + HourFromTime t * 3600000 + MinFromTime t * 60000 = t - t mod 60000"
  "Day t * 86400000 + HourFromTime t * 3600000 = t - t mod 3600000"
  "Day t * 86400000 = t - t mod 86400000"
  using day_time [of t] hour_min [of t] min_sec [of t] sec_ms [of t] by simp_all

lemma TimeClip_cong: "a = b \<Longrightarrow> TimeClip (Fin a) = TimeClip (Fin b)"
  by simp

lemmas setter_defs = Let_def LocalTime_def fixedZone_def orField_def TimeWithinDay_def
  msPerDay_def msPerHour_def msPerMinute_def msPerSecond_def
  setDate.simps(1) setHours.simps(1) setMinutes.simps(1) setSeconds.simps(1)
  setMilliseconds.simps(1)

lemma setDate_fixed:
  "setDate (fixedZone off) (Fin t) (Fin dt) =
     TimeClip (Fin (t + (dt - DateFromTime (t + off)) * 86400000))"
  by (simp add: setter_defs MakeDay_fields del: TimeClip.simps MakeDay.simps)
     (rule TimeClip_cong, use day_time [of "t + off"] in linarith)

lemma setHours_keep:
  "setHours (fixedZone off) (Fin t) (Fin h) None None None =
     TimeClip (Fin (t + (h - HourFromTime (t + off)) * 3600000))"
  by (simp add: setter_defs del: TimeClip.simps)
     (rule TimeClip_cong, use time_fields(1) [of "t + off"] in linarith)

lemma setHours_zero:
  "setHours (fixedZone off) (Fin t) (Fin 0) (Some (Fin 0)) (Some (Fin 0)) None =
     TimeClip (Fin (t - (t + off) mod 86400000 + msFromTime (t + off)))"
  by (simp add: setter_defs del: TimeClip.simps)
     (rule TimeClip_cong, use time_fields(4) [of "t + off"] in linarith)

lemma setMinutes_keep:
  "setMinutes (fixedZone off) (Fin t) (Fin m) None None =
     TimeClip (Fin (t + (m - MinFromTime (t + off)) * 60000))"
  by (simp add: setter_defs del: TimeClip.simps)
     (rule TimeClip_cong, use time_fields(1) [of "t + off"] in linarith)

lemma setMinutes_zero:
  "setMinutes (fixedZone off) (Fin t) (Fin 0) (Some (Fin 0)) (Some (Fin 0)) =
     TimeClip (Fin (t - (t + off) mod 3600000))"
  by (simp add: setter_defs del: TimeClip.simps)
     (rule TimeClip_cong, use time_fields(3) [of "t + off"] in linarith)

lemma setSeconds_keep:
  "setSeconds (fixedZone off) (Fin t) (Fin s) None =
     TimeClip (Fin (t + (s - SecFromTime (t + off)) * 1000))"
  by (simp add: setter_defs del: TimeClip.simps)
     (rule TimeClip_cong, use time_fields(1) [of "t + off"] in linarith)

lemma setSeconds_zero:
  "setSeconds (fixedZone off) (Fin t) (Fin 0) (Some (Fin 0)) =
     TimeClip (Fin (t - (t + off) mod 60000))"
  by (simp add: setter_defs del: TimeClip.simps)
     (rule TimeClip_cong, use time_fields(2) [of "t + off"] in linarith)

lemma setMilliseconds_zero:
  "setMilliseconds (fixedZone off) (Fin t) (Fin 0) =
     TimeClip (Fin (t - (t + off) mod 1000))"
  by (simp add: setter_defs del: TimeClip.simps)
     (rule TimeClip_cong, use time_fields(1) [of "t + off"] in
       \<open>simp add: msFromTime_def msPerSecond_def\<close>)

lemma TimeClip_Fin: "- maxTime \<le> t \<Longrightarrow> t \<le> maxTime \<Longrightarrow> TimeClip (Fin t) = Fin t"
  by simp

lemma getters_fixed:
  "getDate (fixedZone off) (Fin t) = Fin (DateFromTime (t + off))"
  "getHours (fixedZone off) (Fin t) = Fin (HourFromTime (t + off))"
  "getMinutes (fixedZone off) (Fin t) = Fin (MinFromTime (t + off))"
  "getSeconds (fixedZone off) (Fin t) = Fin (SecFromTime (t + off))"
  "getMilliseconds (fixedZone off) (Fin t) = Fin (msFromTime (t + off))"
  by (simp_all add: getDate_def getHours_def getMinutes_def getSeconds_def getMilliseconds_def
      local_fixed)

lemma shift_mod: "((x::int) + k + off) mod k = (x + off) mod k"
proof -
  have "x + k + off = (x + off) + k" by simp
  then show ?thesis by (simp only: mod_add_self2)
qed

lemma nextMinute_fixed:
  assumes "date_or_now date clk = Fin x" "- maxTime \<le> x" "x + 60000 \<le> maxTime"
  shows "nextMinute (fixedZone off) clk date = Fin (x + 60000 - (x + off) mod 60000)"
proof -
  have m: "(x + 60000 + off) mod 60000 = (x + off) mod 60000"
    by (rule shift_mod)
  have r: "0 \<le> (x + off) mod 60000" "(x + off) mod 60000 < 60000" by simp_all
  have d0: "new_Date (date_or_now date clk) = Fin x"
    using assms by (simp add: new_Date_def maxTime_def)
  have d1: "setMinutes (fixedZone off) (Fin x)
              (num_add (getMinutes (fixedZone off) (Fin x)) (Fin 1)) None None = Fin (x + 60000)"
    using assms by (simp add: getters_fixed setMinutes_keep maxTime_def)
  have d2: "setSeconds (fixedZone off) (Fin (x + 60000)) (Fin 0) (Some (Fin 0))
              = Fin (x + 60000 - (x + off) mod 60000)"
    unfolding setSeconds_zero m using assms r by (intro TimeClip_Fin) (simp_all add: maxTime_def)
  have d3: "new_Date (Fin (x + 60000 - (x + off) mod 60000)) = Fin (x + 60000 - (x + off) mod 60000)"
    unfolding new_Date_def using assms r by (intro TimeClip_Fin) (simp_all add: maxTime_def)
  show ?thesis
    unfolding nextMinute_def Let_def d0 d1 d2 d3 ..
qed

lemma nextSecond_fixed:
  assumes "date_or_now date clk = Fin x" "- maxTime \<le> x" "x + 1000 \<le> maxTime"
  shows "nextSecond (fixedZone off) clk date = Fin (x + 1000 - (x + off) mod 1000)"
proof -
  have m: "(x + 1000 + off) mod 1000 = (x + off) mod 1000"
    by (rule shift_mod)
  have r: "0 \<le> (x + off) mod 1000" "(x + off) mod 1000 < 1000" by simp_all
  have d0: "new_Date (date_or_now date clk) = Fin x"
    using assms by (simp add: new_Date_def maxTime_def)
  have d1: "setSeconds (fixedZone off) (Fin x)
              (num_add (getSeconds (fixedZone off) (Fin x)) (Fin 1)) None = Fin (x + 1000)"
    using assms by (simp add: getters_fixed setSeconds_keep maxTime_def)
  have d2: "setMilliseconds (fixedZone off) (Fin (x + 1000)) (Fin 0)
              = Fin (x + 1000 - (x + off) mod 1000)"
    unfolding setMilliseconds_zero m using assms r by (intro TimeClip_Fin) (simp_all add: maxTime_def)
  have d3: "new_Date (Fin (x + 1000 - (x + off) mod 1000)) = Fin (x + 1000 - (x + off) mod 1000)"
    unfolding new_Date_def using assms r by (intro TimeClip_Fin) (simp_all add: maxTime_def)
  show ?thesis
    unfolding nextSecond_def Let_def d0 d1 d2 d3 ..
qed

lemma nextday_fixed:
  assumes "date_or_now date clk = Fin x" "- maxTime \<le> x" "x + 86400000 \<le> maxTime"
  shows "nextday (fixedZone off) clk date = Fin (x + 86400000 - (x + off) mod 86400000)"
proof -
  let ?r = "(x + off) mod 86400000"
  let ?ms = "msFromTime (x + 86400000 + off)"
  have m: "(x + 86400000 + off) mod 86400000 = ?r"
    by (rule shift_mod)
  have r: "0 \<le> ?r" "?r < 86400000" by simp_all
  have "?ms = ?r mod 1000"
    unfolding msFromTime_def msPerSecond_def m [symmetric] by (simp add: mod_mod_cancel)
  then have ms: "0 \<le> ?ms" "?ms < 1000" "?ms \<le> ?r"
    using r by (simp_all add: zmod_le_nonneg_dividend)
  have d0: "new_Date (date_or_now date clk) = Fin x"
    using assms by (simp add: new_Date_def maxTime_def)
  have d1: "setDate (fixedZone off) (Fin x)
              (num_add (getDate (fixedZone off) (Fin x)) (Fin 1)) = Fin (x + 86400000)"
    using assms by (simp add: getters_fixed setDate_fixed maxTime_def)
  have d2: "setHours (fixedZone off) (Fin (x + 86400000)) (Fin 0) (Some (Fin 0)) (Some (Fin 0)) None
              = Fin (x + 86400000 - ?r + ?ms)"
    unfolding setHours_zero m using assms r ms by (intro TimeClip_Fin) (simp_all add: maxTime_def)
  have m2: "(x + 86400000 - ?r + ?ms + off) mod 3600000 = ?ms"
  proof -
    have "x + 86400000 - ?r + ?ms + off = ?ms + (Day (x + off) + 1) * 24 * 3600000"
      using day_time [of "x + off"] by simp
    then have "(x + 86400000 - ?r + ?ms + off) mod 3600000 = ?ms mod 3600000"
      by (simp only: mod_mult_self1)
    then show ?thesis using ms by simp
  qed
  have d3: "setMinutes (fixedZone off) (Fin (x + 86400000 - ?r + ?ms)) (Fin 0) (Some (Fin 0)) (Some (Fin 0))
              = Fin (x + 86400000 - ?r)"
    unfolding setMinutes_zero m2 using assms r by (simp add: maxTime_def)
  have d4: "new_Date (Fin (x + 86400000 - ?r)) = Fin (x + 86400000 - ?r)"
    unfolding new_Date_def using assms r by (intro TimeClip_Fin) (simp_all add: maxTime_def)
  show ?thesis
    unfolding nextday_def Let_def d0 d1 d2 d3 d4 ..
qed

lemma round_minutes:
  assumes "0 \<le> m" "m < 60"
  shows "(2 * m + 60) div 120 = (if 30 \<le> m then 1 else (0::int))"
  using assms by (simp add: div_pos_pos_trivial int_div_pos_eq [where r = "2 * m - 60"])

lemma half_hour: "30 \<le> MinFromTime t \<longleftrightarrow> 1800000 \<le> t mod 3600000"
proof -
  have "0 \<le> t mod 60000" "t mod 60000 < 60000" by simp_all
  then show ?thesis using min_sec [of t] by linarith
qed

lemma nextHour_fixed:
  assumes "date_or_now date clk = Fin x" "- maxTime + 86400000 \<le> x" "x + 86400000 \<le> maxTime"
  shows "nextHour (fixedZone off) clk date =
           Fin (x - (x + off) mod 3600000
                  + (if 1800000 \<le> (x + off) mod 3600000 then 3600000 else 0))"
proof -
  let ?tz = "fixedZone off"
  let ?H = "HourFromTime (x + off)"
  define r where "r = (x + off) mod 3600000"
  define c :: int where "c = (if 1800000 \<le> r then 3600000 else 0)"
  define up :: int where "up = (if 1800000 \<le> r then 1 else 0)"
  have r: "0 \<le> r" "r < 3600000" unfolding r_def by simp_all
  have c: "c = 0 \<or> c = 3600000" "c = up * 3600000" unfolding c_def up_def by simp_all
  have m: "(x + c + off) mod 3600000 = r"
    unfolding c_def r_def using shift_mod [of x 3600000 off] by simp
  have d0: "new_Date (date_or_now date clk) = Fin x"
    using assms by (simp add: new_Date_def maxTime_def)
  have nh: "num_add (getHours ?tz (Fin x)) (Math_round_div (getMinutes ?tz (Fin x)) 60)
              = Fin (?H + up)"
    using round_minutes [of "MinFromTime (x + off)"] field_ranges [of "x + off"]
      half_hour [of "x + off"]
    by (simp add: getters_fixed up_def r_def)
  have d1: "(if num_gt (Fin (?H + up)) (Fin 23)
             then (let d = setHours ?tz (Fin x) (Fin 0) None None None
                   in setDate ?tz d (num_add (getDate ?tz d) (Fin 1)))
             else setHours ?tz (Fin x) (Fin (?H + up)) None None None)
            = Fin (x + c)"
  proof (cases "23 < ?H + up")
    case True
    then have H: "?H = 23" and u: "up = 1"
      using field_ranges(2) [of "x + off"] by (auto simp: up_def split: if_splits)
    have s1: "setHours ?tz (Fin x) (Fin 0) None None None = Fin (x - 82800000)"
      unfolding setHours_keep H using assms by (simp add: maxTime_def)
    have s2: "setDate ?tz (Fin (x - 82800000))
                (num_add (getDate ?tz (Fin (x - 82800000))) (Fin 1)) = Fin (x + 3600000)"
      using assms by (simp add: getters_fixed setDate_fixed maxTime_def)
    show ?thesis using True u c(2) by (simp add: num_gt_def Let_def s1 s2)
  next
    case False
    have "x + (?H + up - ?H) * 3600000 = x + c" using c(2) by simp
    moreover have "TimeClip (Fin (x + c)) = Fin (x + c)"
      using assms c(1) by (intro TimeClip_Fin) (auto simp: maxTime_def)
    ultimately have "setHours ?tz (Fin x) (Fin (?H + up)) None None None = Fin (x + c)"
      unfolding setHours_keep by simp
    then show ?thesis using False by (simp add: num_gt_def)
  qed
  have d2: "setMinutes ?tz (Fin (x + c)) (Fin 0) (Some (Fin 0)) (Some (Fin 0))
              = Fin (x + c - r)"
    unfolding setMinutes_zero m using assms r c(1) by (intro TimeClip_Fin) (auto simp: maxTime_def)
  have d3: "new_Date (Fin (x + c - r)) = Fin (x + c - r)"
    unfolding new_Date_def using assms r c(1) by (intro TimeClip_Fin) (auto simp: maxTime_def)
  have "nextHour ?tz clk date = Fin (x + c - r)"
    unfolding nextHour_def Let_def d0 nh d1 [unfolded Let_def] d2 d3 ..
  then show ?thesis
    unfolding c_def r_def by simp
qed

lemma date_or_now_truthy: "x \<noteq> 0 \<Longrightarrow> date_or_now (Number (Fin x)) clk = Fin x"
  by simp

lemma zero_sec_ms:
  assumes "t mod 60000 = 0"
  shows "SecFromTime t = 0" "msFromTime t = 0"
  using sec_ms [of t] field_ranges [of t] assms by linarith+

section \<open>The calendar\<close>

text \<open>
  The year, month and date functions of the model are those of the specification:
  the year is characterised by \<open>DayFromYear\<close>, and the day within the year lies in the
  range of its year, so that the chain of comparisons in \<open>MonthFromTime\<close> is the table of
  the specification.
\<close>

lemma div_bounds:
  fixes a c :: int
  assumes "0 < c"
  shows "c * (a div c) \<le> a \<and> a < c * (a div c) + c"
proof -
  have "a = c * (a div c) + a mod c" by simp
  moreover have "0 \<le> a mod c" "a mod c < c" using assms by simp_all
  ultimately show ?thesis by linarith
qed

lemma DayFromYear_lower:
  assumes "146097 * u \<le> 400 * d"
  shows "DayFromYear (1969 + u) \<le> d"
proof -
  define a where "a = u div 4"
  define b where "b = (u + 68) div 100"
  define c where "c = (u + 368) div 400"
  have "4 * a \<le> u" "u + 68 < 100 * b + 100" "400 * c \<le> u + 368"
    using div_bounds [of 4 u] div_bounds [of 100 "u + 68"] div_bounds [of 400 "u + 368"]
    by (simp_all add: a_def b_def c_def)
  then have "365 * u - 365 + a - b + c \<le> d" using assms by linarith
  then show ?thesis by (simp add: DayFromYear_def a_def b_def c_def algebra_simps)
qed

lemma DayFromYear_upper:
  assumes "400 * d < 146097 * u + 146097"
  shows "d < DayFromYear (1972 + u)"
proof -
  define a where "a = (u + 3) div 4"
  define b where "b = (u + 71) div 100"
  define c where "c = (u + 371) div 400"
  have "u + 3 < 4 * a + 4" "100 * b \<le> u + 71" "u + 371 < 400 * c + 400"
    using div_bounds [of 4 "u + 3"] div_bounds [of 100 "u + 71"] div_bounds [of 400 "u + 371"]
    by (simp_all add: a_def b_def c_def)
  then have "d < 365 * u + 730 + a - b + c" using assms by linarith
  then show ?thesis by (simp add: DayFromYear_def a_def b_def c_def algebra_simps)
qed

lemma YearFromDay_bounds:
  "DayFromYear (YearFromDay d) \<le> d \<and> d < DayFromYear (YearFromDay d + 1)"
proof -
  define u where "u = (400 * d) div 146097"
  define y where "y = 1970 + u"
  have e: "146097 * u \<le> 400 * d" "400 * d < 146097 * u + 146097"
    using div_bounds [of 146097 "400 * d"] by (simp_all add: u_def)
  have l: "DayFromYear (y - 1) \<le> d"
    using DayFromYear_lower [OF e(1)] by (simp add: y_def)
  have u: "d < DayFromYear (y + 1 + 1)"
    using DayFromYear_upper [OF e(2)] by (simp add: y_def)
  have yd: "YearFromDay d = (if d < DayFromYear y then y - 1
         else if DayFromYear (y + 1) \<le> d then y + 1 else y)"
    by (simp add: YearFromDay_def y_def u_def Let_def)
  consider "d < DayFromYear y" | "\<not> d < DayFromYear y" "DayFromYear (y + 1) \<le> d"
    | "\<not> d < DayFromYear y" "\<not> DayFromYear (y + 1) \<le> d" by blast
  then show ?thesis
  proof cases
    case 1
    then have "YearFromDay d = y - 1" by (simp only: yd if_True)
    with 1 l show ?thesis by simp
  next
    case 2
    then have "YearFromDay d = y + 1" by (simp only: yd if_True if_False)
    with 2 u show ?thesis by simp
  next
    case 3
    then have "YearFromDay d = y" by (simp only: yd if_False)
    with 3 show ?thesis by simp
  qed
qed

lemma div_succ:
  fixes a c :: int
  assumes "0 < c"
  shows "(a + 1) div c = a div c + (if (a + 1) mod c = 0 then 1 else 0)"
proof -
  define q where "q = a div c"
  define r where "r = a mod c"
  have a: "a = c * q + r" and r: "0 \<le> r" "r < c"
    using assms by (simp_all add: q_def r_def)
  show ?thesis
  proof (cases "r + 1 = c")
    case True
    then have "a + 1 = c * (q + 1) + 0" using a by (simp add: algebra_simps)
    then have "(a + 1) div c = q + 1" "(a + 1) mod c = 0"
      using assms int_div_pos_eq [of "a + 1" c "q + 1" 0] int_mod_pos_eq [of "a + 1" c "q + 1" 0]
      by simp_all
    then show ?thesis by (simp add: q_def)
  next
    case False
    then have "a + 1 = c * q + (r + 1)" "0 \<le> r + 1" "r + 1 < c" using a r by simp_all
    then have "(a + 1) div c = q" "(a + 1) mod c = r + 1"
      using int_div_pos_eq [of "a + 1" c q "r + 1"] int_mod_pos_eq [of "a + 1" c q "r + 1"]
      by simp_all
    then show ?thesis using r by (simp add: q_def)
  qed
qed

lemma leap_terms:
  fixes y :: int
  shows "(y - 1968) div 4 = (y - 1969) div 4 + (if y mod 4 = 0 then 1 else 0)"
    and "(y - 1900) div 100 = (y - 1901) div 100 + (if y mod 100 = 0 then 1 else 0)"
    and "(y - 1600) div 400 = (y - 1601) div 400 + (if y mod 400 = 0 then 1 else 0)"
proof -
  have m4: "(y - 1968) mod 4 = y mod 4"
    using mod_mult_self2 [of y 4 "- 492"] by simp
  have m100: "(y - 1900) mod 100 = y mod 100"
    using mod_mult_self2 [of y 100 "- 19"] by simp
  have m400: "(y - 1600) mod 400 = y mod 400"
    using mod_mult_self2 [of y 400 "- 4"] by simp
  have s: "y - 1969 + 1 = y - 1968" "y - 1901 + 1 = y - 1900" "y - 1601 + 1 = y - 1600"
    by simp_all
  show "(y - 1968) div 4 = (y - 1969) div 4 + (if y mod 4 = 0 then 1 else 0)"
    using div_succ [of 4 "y - 1969"] unfolding s m4 by simp
  show "(y - 1900) div 100 = (y - 1901) div 100 + (if y mod 100 = 0 then 1 else 0)"
    using div_succ [of 100 "y - 1901"] unfolding s m100 by simp
  show "(y - 1600) div 400 = (y - 1601) div 400 + (if y mod 400 = 0 then 1 else 0)"
    using div_succ [of 400 "y - 1601"] unfolding s m400 by simp
qed

lemma DayFromYear_step: "DayFromYear (y + 1) = DayFromYear y + DaysInYear y"
proof -
  have i: "y mod 400 = 0 \<Longrightarrow> y mod 100 = 0" "y mod 100 = 0 \<Longrightarrow> y mod 4 = 0"
    using mod_mod_cancel [of 100 400 y] mod_mod_cancel [of 4 100 y] by simp_all
  have "DayFromYear (y + 1)
        = 365 * (y - 1970) + 365 + (y - 1968) div 4 - (y - 1900) div 100 + (y - 1600) div 400"
    by (simp add: DayFromYear_def)
  also have "\<dots> = DayFromYear y + 365 + (if y mod 4 = 0 then 1 else 0)
        - (if y mod 100 = 0 then 1 else 0) + (if y mod 400 = 0 then 1 else 0)"
    unfolding leap_terms DayFromYear_def by simp
  also have "\<dots> = DayFromYear y + DaysInYear y"
    using i by (simp add: DaysInYear_def)
  finally show ?thesis .
qed

lemma DayWithinYear_range:
  "0 \<le> DayWithinYear t \<and> DayWithinYear t < DaysInYear (YearFromTime t)"
  using YearFromDay_bounds [of "Day t"] DayFromYear_step [of "YearFromDay (Day t)"]
  unfolding DayWithinYear_def YearFromTime_def by linarith

lemma DaysInYear_cases: "DaysInYear y = 365 \<or> DaysInYear y = 366"
  by (simp add: DaysInYear_def)

lemma DayFromYear_mono: "y \<le> y' \<Longrightarrow> DayFromYear y \<le> DayFromYear y'"
proof (induction y' rule: int_ge_induct)
  case base
  show ?case by simp
next
  case (step i)
  then show ?case
    using DayFromYear_step [of i] DaysInYear_cases [of i] by linarith
qed

text \<open>\<open>YearFromTime t\<close> is the largest year whose first day is not after \<open>t\<close>.\<close>

lemma DayFromYear_YearFromTime:
  "DayFromYear (YearFromTime t) \<le> Day t"
  "DayFromYear y \<le> Day t \<Longrightarrow> y \<le> YearFromTime t"
proof -
  show "DayFromYear (YearFromTime t) \<le> Day t"
    using YearFromDay_bounds [of "Day t"] by (simp add: YearFromTime_def)
  show "y \<le> YearFromTime t" if "DayFromYear y \<le> Day t"
  proof (rule ccontr)
    assume "\<not> y \<le> YearFromTime t"
    then have "YearFromTime t + 1 \<le> y" by simp
    then have "DayFromYear (YearFromTime t + 1) \<le> DayFromYear y" by (rule DayFromYear_mono)
    with that YearFromDay_bounds [of "Day t"] show False by (simp add: YearFromTime_def)
  qed
qed

lemma InLeapYear_cases: "InLeapYear t = 0 \<or> InLeapYear t = 1"
  by (simp add: InLeapYear_def)

lemma DayWithinYear_leap: "0 \<le> DayWithinYear t \<and> DayWithinYear t < 365 + InLeapYear t"
  using DayWithinYear_range [of t] DaysInYear_cases [of "YearFromTime t"]
  by (auto simp: InLeapYear_def)

text \<open>
  The month and the date of the specification's tables: the day within the year lies
  in the month that \<open>MonthFromTime\<close> returns, and the date counts from its first day.
\<close>

lemma MonthFromTime_table:
  "MonthStart (MonthFromTime t) (InLeapYear t) \<le> DayWithinYear t"
  "MonthFromTime t < 11 \<Longrightarrow> DayWithinYear t < MonthStart (MonthFromTime t + 1) (InLeapYear t)"
  "MonthFromTime t = 11 \<Longrightarrow> DayWithinYear t < 365 + InLeapYear t"
  using DayWithinYear_leap [of t] InLeapYear_cases [of t]
  by (auto simp: MonthFromTime_def MonthStart_def Let_def split: if_splits)

lemma DateFromTime_range: "1 \<le> DateFromTime t \<and> DateFromTime t \<le> 31"
  using DayWithinYear_leap [of t] InLeapYear_cases [of t]
  by (auto simp: DateFromTime_def MonthFromTime_def MonthStart_def Let_def split: if_splits)

lemma YearFromDay_unique:
  assumes "DayFromYear y \<le> d" "d < DayFromYear (y + 1)"
  shows "YearFromDay d = y"
proof -
  have b: "DayFromYear (YearFromDay d) \<le> d" "d < DayFromYear (YearFromDay d + 1)"
    using YearFromDay_bounds [of d] by simp_all
  have "\<not> y + 1 \<le> YearFromDay d"
    using DayFromYear_mono [of "y + 1" "YearFromDay d"] b(1) assms(2) by linarith
  moreover have "\<not> YearFromDay d + 1 \<le> y"
    using DayFromYear_mono [of "YearFromDay d + 1" y] b(2) assms(1) by linarith
  ultimately show ?thesis by simp
qed

text \<open>
  \<open>MakeDay\<close> as the specification words it: the day it starts from is a day \<open>t\<close> with
  \<open>YearFromTime t = ym\<close>, \<open>MonthFromTime t = mn\<close> and \<open>DateFromTime t = 1\<close>.
\<close>

lemma MakeDay_first_of_month:
  assumes "0 \<le> mn" "mn \<le> 11"
    and "leap = (if DaysInYear ym = 366 then 1 else 0)"
    and "t = (DayFromYear ym + MonthStart mn leap) * msPerDay"
  shows "YearFromTime t = ym \<and> MonthFromTime t = mn \<and> DateFromTime t = 1"
proof -
  have day: "Day t = DayFromYear ym + MonthStart mn leap"
    using assms(4) by (simp add: Day_def msPerDay_def)
  have l: "leap = 0 \<or> leap = 1" using assms(3) by simp
  have ms: "0 \<le> MonthStart mn leap" "MonthStart mn leap < 365 + leap"
    using l by (auto simp: MonthStart_def)
  have diy: "DaysInYear ym = 365 + leap"
    using assms(3) DaysInYear_cases [of ym] by auto
  have y: "YearFromTime t = ym"
    unfolding YearFromTime_def day
    using ms diy DayFromYear_step [of ym] by (intro YearFromDay_unique) linarith+
  have il: "InLeapYear t = leap" using assms(3) by (simp add: InLeapYear_def y)
  have dw: "DayWithinYear t = MonthStart mn leap" by (simp add: DayWithinYear_def y day)
  from assms(1,2) have "mn \<in> {0, 1, 2, 3, 4, 5, 6, 7, 8, 9, 10, 11}" by simp presburger
  then have m: "MonthFromTime t = mn"
    using l unfolding MonthFromTime_def Let_def dw il by (auto simp: MonthStart_def)
  show ?thesis using y m by (simp add: DateFromTime_def dw il)
qed

section \<open>The calculators on a host with a fixed offset\<close>

subsection \<open>Claim C4: \<^verbatim>\<open>nextMinute\<close>\<close>

text \<open>
  Claim C4, as amended. On a host whose local time is at a fixed offset from UTC, for
  every instant \<open>x\<close> other than \<open>0\<close> such that \<open>x\<close> and \<open>x + 60000\<close> are time values a
  \<^verbatim>\<open>Date\<close> can hold, \<open>nextMinute x\<close> is a time value \<open>n\<close> whose local seconds and
  milliseconds are zero and that lies in the interval \<open>(x, x + 60000]\<close>.
\<close>

theorem C4_nextMinute_within_next_minute:
  assumes "x \<noteq> 0" "- maxTime \<le> x" "x + 60000 \<le> maxTime"
  shows "\<exists>n. nextMinute (fixedZone off) clk (Number (Fin x)) = Fin n
           \<and> getSeconds (fixedZone off) (Fin n) = Fin 0
           \<and> getMilliseconds (fixedZone off) (Fin n) = Fin 0
           \<and> x < n \<and> n \<le> x + 60000"
proof -
  define r where "r = (x + off) mod 60000"
  define n where "n = x + 60000 - r"
  have r: "0 \<le> r" "r < 60000" unfolding r_def by simp_all
  have "nextMinute (fixedZone off) clk (Number (Fin x)) = Fin n"
    unfolding n_def r_def using assms by (intro nextMinute_fixed) simp_all
  moreover have "(n + off) mod 60000 = 0"
  proof -
    have "n + off = (x + off) - (x + off) mod 60000 + 60000" by (simp add: n_def r_def)
    also have "\<dots> = ((x + off) div 60000 + 1) * 60000"
      by (simp add: algebra_simps minus_mod_eq_mult_div)
    finally show ?thesis by simp
  qed
  then have "getSeconds (fixedZone off) (Fin n) = Fin 0"
    "getMilliseconds (fixedZone off) (Fin n) = Fin 0"
    by (simp_all add: getters_fixed zero_sec_ms)
  moreover have "x < n" "n \<le> x + 60000" using r by (simp_all add: n_def)
  ultimately show ?thesis by blast
qed

text \<open>The amended claim at 2023-06-15T10:10:10Z on a host in UTC.\<close>

theorem C4_witness:
  "(1686823810000::int) \<noteq> 0 \<and> - maxTime \<le> 1686823810000 \<and> 1686823810000 + 60000 \<le> maxTime
   \<and> (\<exists>n. nextMinute (fixedZone 0) 0 (Number (Fin 1686823810000)) = Fin n
           \<and> getSeconds (fixedZone 0) (Fin n) = Fin 0
           \<and> getMilliseconds (fixedZone 0) (Fin n) = Fin 0
           \<and> 1686823810000 < n \<and> n \<le> 1686823810000 + 60000)"
  using C4_nextMinute_within_next_minute [of 1686823810000 0 0] by (simp add: maxTime_def)

text \<open>
  The claim as stated fails at two instants. The instant \<open>0\<close> is falsy, so
  \<^verbatim>\<open>date || (+new Date())\<close> replaces it by the clock reading, here
  2023-06-15T10:10:10Z, and the result is the minute after the clock reading, far outside
  \<open>(0, 60000]\<close>. At the last instant a \<^verbatim>\<open>Date\<close> can hold, \<^verbatim>\<open>setMinutes\<close> leaves the range
  of time values and the result is \<open>NaN\<close>.
\<close>

theorem C4_counterexample:
  "nextMinute (fixedZone 0) 1686823810000 (Number (Fin 0)) = Fin 1686823860000
   \<and> \<not> (1686823860000 \<le> (0::int) + 60000)
   \<and> nextMinute (fixedZone 0) 1686823810000 (Number (Fin 8640000000000000)) = NaN"
  by code_simp

text \<open>
  The theorem is about hosts with a fixed offset. On a host with a zone transition the
  local minute after a local time need not be a later instant: at 2023-11-05T06:30:15Z,
  in the second pass of the repeated hour, \<^verbatim>\<open>setMinutes\<close> lands in the first pass and
  \<open>nextMinute\<close> returns 2023-11-05T05:31:00Z, almost an hour before its argument.
\<close>

lemma nextMinute_fall_back:
  "nextMinute fallBackZone 0 (Number (Fin 1699165815000)) = Fin 1699162260000"
  by code_simp

subsection \<open>Claim C5: \<^verbatim>\<open>nextday\<close>\<close>

text \<open>
  Claim C5, as amended. On a host whose local time is at a fixed offset from UTC, for
  every instant \<open>x\<close> other than \<open>0\<close> such that \<open>x\<close> and \<open>x + 86400000\<close> are time values
  a \<^verbatim>\<open>Date\<close> can hold, \<open>nextday x\<close> is the time value whose local time is 00:00:00.000
  of the day after the local day of \<open>x\<close>.
\<close>

theorem C5_nextday_next_local_midnight:
  assumes "x \<noteq> 0" "- maxTime \<le> x" "x + 86400000 \<le> maxTime"
  shows "\<exists>n. nextday (fixedZone off) clk (Number (Fin x)) = Fin n
           \<and> Day (LocalTime (fixedZone off) n) = Day (LocalTime (fixedZone off) x) + 1
           \<and> TimeWithinDay (LocalTime (fixedZone off) n) = 0"
proof -
  define n where "n = x + 86400000 - (x + off) mod 86400000"
  have "nextday (fixedZone off) clk (Number (Fin x)) = Fin n"
    unfolding n_def using assms by (intro nextday_fixed) simp_all
  moreover have "n + off = (Day (x + off) + 1) * 86400000"
    using day_time [of "x + off"] by (simp add: n_def algebra_simps)
  then have "Day (n + off) = Day (x + off) + 1" "TimeWithinDay (n + off) = 0"
    by (simp_all add: Day_def TimeWithinDay_def msPerDay_def)
  ultimately show ?thesis by (simp add: local_fixed)
qed

text \<open>The amended claim at 2023-06-15T23:45:00Z on a host two hours ahead of UTC.\<close>

theorem C5_witness:
  "(1686872700000::int) \<noteq> 0 \<and> - maxTime \<le> 1686872700000 \<and> 1686872700000 + 86400000 \<le> maxTime
   \<and> (\<exists>n. nextday (fixedZone 7200000) 0 (Number (Fin 1686872700000)) = Fin n
           \<and> Day (LocalTime (fixedZone 7200000) n) = Day (LocalTime (fixedZone 7200000) 1686872700000) + 1
           \<and> TimeWithinDay (LocalTime (fixedZone 7200000) n) = 0)"
  using C5_nextday_next_local_midnight [of 1686872700000 7200000 0] by (simp add: maxTime_def)

text \<open>
  The claim as stated fails at the instant \<open>0\<close>, which \<^verbatim>\<open>date || (+new Date())\<close> replaces
  by the clock reading (here 2023-06-15T10:10:10Z, so the result is 2023-06-16 and not
  1970-01-02), and at the last instant a \<^verbatim>\<open>Date\<close> can hold, where \<^verbatim>\<open>setDate\<close> leaves the
  range of time values and the result is \<open>NaN\<close>.
\<close>

theorem C5_counterexample:
  "nextday (fixedZone 0) 1686823810000 (Number (Fin 0)) = Fin 1686873600000
   \<and> Day 1686873600000 \<noteq> Day 0 + 1
   \<and> nextday (fixedZone 0) 1686823810000 (Number (Fin 8640000000000000)) = NaN"
  by code_simp

subsection \<open>Claims C1 and C10: \<^verbatim>\<open>nextHour\<close>\<close>

lemma nextHour_roundedHour:
  "num_add (getHours (fixedZone off) (Fin x)) (Math_round_div (getMinutes (fixedZone off) (Fin x)) 60)
     = Fin (roundedHour (LocalTime (fixedZone off) x))"
  using round_minutes [of "MinFromTime (x + off)"] field_ranges [of "x + off"]
  by (simp add: getters_fixed roundedHour_def local_fixed)

lemma nextHour_local:
  assumes "x \<noteq> 0" "- maxTime + 86400000 \<le> x" "x + 86400000 \<le> maxTime"
  shows "\<exists>n. nextHour (fixedZone off) clk (Number (Fin x)) = Fin n
           \<and> LocalTime (fixedZone off) n =
               (if roundedHour (LocalTime (fixedZone off) x) > 23
                then (Day (LocalTime (fixedZone off) x) + 1) * msPerDay
                else Day (LocalTime (fixedZone off) x) * msPerDay
                       + roundedHour (LocalTime (fixedZone off) x) * msPerHour)"
proof -
  define L where "L = x + off"
  define r where "r = L mod 3600000"
  define n where "n = x - r + (if 1800000 \<le> r then 3600000 else 0)"
  have n: "nextHour (fixedZone off) clk (Number (Fin x)) = Fin n"
    unfolding n_def r_def L_def using assms by (intro nextHour_fixed) simp_all
  have H: "0 \<le> HourFromTime L" "HourFromTime L < 24" by (rule field_ranges)+
  have dh: "Day L * 86400000 + HourFromTime L * 3600000 = L - r"
    unfolding r_def by (rule time_fields(3))
  have rh: "roundedHour L = HourFromTime L + (if 1800000 \<le> r then 1 else 0)"
    unfolding roundedHour_def r_def using half_hour [of L] by simp
  have "n + off = (if roundedHour L > 23 then (Day L + 1) * 86400000
                   else Day L * 86400000 + roundedHour L * 3600000)"
  proof (cases "1800000 \<le> r")
    case True
    then have "n + off = L - r + 3600000" by (simp add: n_def L_def)
    with True dh H rh show ?thesis by (cases "HourFromTime L = 23") auto
  next
    case False
    then have "n + off = L - r" by (simp add: n_def L_def)
    with False dh H rh show ?thesis by auto
  qed
  with n show ?thesis
    by (simp add: local_fixed L_def msPerDay_def msPerHour_def)
qed

lemma nextHour_whole_hour_zone:
  assumes "x mod 3600000 = r" "x \<noteq> 0" "- maxTime + 86400000 \<le> x" "x + 86400000 \<le> maxTime"
  shows "nextHour (fixedZone (k * 3600000)) clk (Number (Fin x))
           = Fin (x - r + (if 1800000 \<le> r then 3600000 else 0))"
proof -
  have "(x + k * 3600000) mod 3600000 = r" using assms(1) by simp
  then show ?thesis
    using nextHour_fixed [of "Number (Fin x)" clk x "k * 3600000"] assms by simp
qed

text \<open>
  Claim C1, as amended. On a host whose local time is at a fixed offset from UTC, for
  every instant \<open>x\<close> other than \<open>0\<close> that is at least one day inside the range of time
  values: \<open>nextHour\<close> computes the rounded hour, the hour of the local time of \<open>x\<close> plus
  \<^verbatim>\<open>Math.round(minutes / 60)\<close>, which adds one from minute 30 on; the result has its local
  minutes, seconds and milliseconds zero; it is hour 0 of the local day after that of \<open>x\<close>
  when the rounded hour exceeds 23, and the rounded hour of the local day of \<open>x\<close>
  otherwise. When the offset of the host is a whole number of hours,
  \<open>nextHour\<close> of 2023-06-15T10:10:00Z is 2023-06-15T10:00:00Z and \<open>nextHour\<close> of
  2023-06-15T23:45:00Z is 2023-06-16T00:00:00Z.
\<close>

theorem C1_nextHour_rounds_to_hour:
  assumes "x \<noteq> 0" "- maxTime + 86400000 \<le> x" "x + 86400000 \<le> maxTime"
  shows "num_add (getHours (fixedZone off) (Fin x))
             (Math_round_div (getMinutes (fixedZone off) (Fin x)) 60)
           = Fin (roundedHour (LocalTime (fixedZone off) x))
         \<and> (\<exists>n. nextHour (fixedZone off) clk (Number (Fin x)) = Fin n
               \<and> LocalTime (fixedZone off) n =
                   (if roundedHour (LocalTime (fixedZone off) x) > 23
                    then (Day (LocalTime (fixedZone off) x) + 1) * msPerDay
                    else Day (LocalTime (fixedZone off) x) * msPerDay
                           + roundedHour (LocalTime (fixedZone off) x) * msPerHour))
         \<and> nextHour (fixedZone (k * 3600000)) clk (Number (Fin 1686823800000)) = Fin 1686823200000
         \<and> nextHour (fixedZone (k * 3600000)) clk (Number (Fin 1686872700000)) = Fin 1686873600000"
proof -
  have "nextHour (fixedZone (k * 3600000)) clk (Number (Fin 1686823800000)) = Fin 1686823200000"
    using nextHour_whole_hour_zone [of 1686823800000 600000 k clk] by (simp add: maxTime_def)
  moreover
  have "nextHour (fixedZone (k * 3600000)) clk (Number (Fin 1686872700000)) = Fin 1686873600000"
    using nextHour_whole_hour_zone [of 1686872700000 2700000 k clk] by (simp add: maxTime_def)
  ultimately show ?thesis
    using nextHour_roundedHour [of off x] nextHour_local [OF assms, of off clk] by blast
qed

text \<open>
  The amended claim at 2023-06-15T23:45:00Z on a host at UTC+05:30, and the two
  examples on a host at UTC+02:00.
\<close>

theorem C1_witness:
  "(1686872700000::int) \<noteq> 0 \<and> - maxTime + 86400000 \<le> 1686872700000
   \<and> 1686872700000 + 86400000 \<le> maxTime
   \<and> num_add (getHours (fixedZone 19800000) (Fin 1686872700000))
             (Math_round_div (getMinutes (fixedZone 19800000) (Fin 1686872700000)) 60)
           = Fin (roundedHour (LocalTime (fixedZone 19800000) 1686872700000))
   \<and> (\<exists>n. nextHour (fixedZone 19800000) 0 (Number (Fin 1686872700000)) = Fin n
               \<and> LocalTime (fixedZone 19800000) n =
                   (if roundedHour (LocalTime (fixedZone 19800000) 1686872700000) > 23
                    then (Day (LocalTime (fixedZone 19800000) 1686872700000) + 1) * msPerDay
                    else Day (LocalTime (fixedZone 19800000) 1686872700000) * msPerDay
                           + roundedHour (LocalTime (fixedZone 19800000) 1686872700000) * msPerHour))
   \<and> nextHour (fixedZone (2 * 3600000)) 0 (Number (Fin 1686823800000)) = Fin 1686823200000
   \<and> nextHour (fixedZone (2 * 3600000)) 0 (Number (Fin 1686872700000)) = Fin 1686873600000"
  using C1_nextHour_rounds_to_hour [of 1686872700000 19800000 0 2] by (simp add: maxTime_def)

text \<open>
  The claim as stated fails in three ways. The hours and minutes are those of local time:
  on a host at UTC+05:30 the local time of 2023-06-15T10:10:00Z is 15:40, and the result
  is 2023-06-15T10:30:00Z. The instant \<open>0\<close> is replaced by the clock reading. One second
  before the last instant a \<^verbatim>\<open>Date\<close> can hold, the rollover leaves the range of time
  values and the result is \<open>NaN\<close>.
\<close>

theorem C1_counterexample:
  "nextHour (fixedZone 19800000) 0 (Number (Fin 1686823800000)) = Fin 1686825000000
   \<and> nextHour (fixedZone 0) 1686823810000 (Number (Fin 0)) = Fin 1686823200000
   \<and> nextHour (fixedZone 0) 0 (Number (Fin 8639999999999000)) = NaN"
  by code_simp

text \<open>
  Claim C10, as amended. On a host whose local time is at a fixed offset from UTC, for
  every instant \<open>x\<close> other than \<open>0\<close> that is at least two days inside the range of time
  values: if \<open>nextHour x\<close> is not \<open>0\<close> then \<open>nextHour (nextHour x) = nextHour x\<close>, and if
  the local minutes, seconds and milliseconds of \<open>x\<close> are zero then \<open>nextHour x = x\<close>, so
  the result of \<open>nextHour\<close> is not always after its input.
\<close>

theorem C10_nextHour_idempotent:
  assumes "x \<noteq> 0" "- maxTime + 172800000 \<le> x" "x + 172800000 \<le> maxTime"
  shows "(nextHour (fixedZone off) clk (Number (Fin x)) \<noteq> Fin 0 \<longrightarrow>
            nextHour (fixedZone off) clk' (Number (nextHour (fixedZone off) clk (Number (Fin x))))
              = nextHour (fixedZone off) clk (Number (Fin x)))
         \<and> (getMinutes (fixedZone off) (Fin x) = Fin 0 \<and> getSeconds (fixedZone off) (Fin x) = Fin 0
              \<and> getMilliseconds (fixedZone off) (Fin x) = Fin 0 \<longrightarrow>
            nextHour (fixedZone off) clk (Number (Fin x)) = Fin x)"
proof -
  define r where "r = (x + off) mod 3600000"
  define n where "n = x - r + (if 1800000 \<le> r then 3600000 else 0)"
  have r: "0 \<le> r" "r < 3600000" unfolding r_def by simp_all
  have n: "nextHour (fixedZone off) clk (Number (Fin x)) = Fin n"
    unfolding n_def r_def using assms by (intro nextHour_fixed) simp_all
  have "n + off = ((x + off) div 3600000 + (if 1800000 \<le> r then 1 else 0)) * 3600000"
    unfolding n_def r_def by (simp add: algebra_simps minus_mod_eq_mult_div)
  then have nm: "(n + off) mod 3600000 = 0" by simp
  have idem: "nextHour (fixedZone off) clk' (Number (Fin n)) = Fin n" if "n \<noteq> 0"
    using nextHour_fixed [of "Number (Fin n)" clk' n off] that nm assms r
    by (simp add: n_def maxTime_def split: if_splits)
  have fixpt: "nextHour (fixedZone off) clk (Number (Fin x)) = Fin x"
    if "MinFromTime (x + off) = 0" "SecFromTime (x + off) = 0" "msFromTime (x + off) = 0"
  proof -
    have "r = 0" unfolding r_def using that min_sec [of "x + off"] sec_ms [of "x + off"] by simp
    then show ?thesis using n by (simp add: n_def)
  qed
  show ?thesis using n idem fixpt by (auto simp: getters_fixed)
qed

text \<open>
  The amended claim at 2023-06-15T23:45:00Z and at the hour boundary 2023-06-16T00:00:00Z,
  on a host in UTC.
\<close>

theorem C10_witness:
  "(1686872700000::int) \<noteq> 0 \<and> - maxTime + 172800000 \<le> 1686872700000
   \<and> 1686872700000 + 172800000 \<le> maxTime
   \<and> nextHour (fixedZone 0) 5 (Number (Fin 1686872700000)) \<noteq> Fin 0
   \<and> nextHour (fixedZone 0) 7 (Number (nextHour (fixedZone 0) 5 (Number (Fin 1686872700000))))
              = nextHour (fixedZone 0) 5 (Number (Fin 1686872700000))
   \<and> (1686873600000::int) \<noteq> 0 \<and> - maxTime + 172800000 \<le> 1686873600000
   \<and> 1686873600000 + 172800000 \<le> maxTime
   \<and> getMinutes (fixedZone 0) (Fin 1686873600000) = Fin 0
   \<and> getSeconds (fixedZone 0) (Fin 1686873600000) = Fin 0
   \<and> getMilliseconds (fixedZone 0) (Fin 1686873600000) = Fin 0
   \<and> nextHour (fixedZone 0) 5 (Number (Fin 1686873600000)) = Fin 1686873600000"
proof -
  have a: "nextHour (fixedZone 0) 5 (Number (Fin 1686872700000)) \<noteq> Fin 0" by code_simp
  have b: "getMinutes (fixedZone 0) (Fin 1686873600000) = Fin 0
     \<and> getSeconds (fixedZone 0) (Fin 1686873600000) = Fin 0
     \<and> getMilliseconds (fixedZone 0) (Fin 1686873600000) = Fin 0" by code_simp
  show ?thesis
    using C10_nextHour_idempotent [of 1686872700000 0 5 7]
      C10_nextHour_idempotent [of 1686873600000 0 5 7] a b
    by (simp add: maxTime_def)
qed

text \<open>
  The claim as stated fails where a result is falsy. One second after the epoch
  \<open>nextHour\<close> returns \<open>0\<close>, and \<open>nextHour 0\<close> is computed from the clock reading; the
  instant \<open>0\<close> lies on an hour boundary and is not a fixed point. One second before the
  last instant a \<^verbatim>\<open>Date\<close> can hold the result is \<open>NaN\<close>, which is falsy too.
\<close>

theorem C10_counterexample:
  "nextHour (fixedZone 0) 1686823810000 (Number (Fin 1000)) = Fin 0
   \<and> nextHour (fixedZone 0) 1686823810000
        (Number (nextHour (fixedZone 0) 1686823810000 (Number (Fin 1000)))) = Fin 1686823200000
   \<and> getMinutes (fixedZone 0) (Fin 0) = Fin 0 \<and> getSeconds (fixedZone 0) (Fin 0) = Fin 0
   \<and> getMilliseconds (fixedZone 0) (Fin 0) = Fin 0
   \<and> nextHour (fixedZone 0) 1686823810000 (Number (Fin 0)) = Fin 1686823200000
   \<and> nextHour (fixedZone 0) 1686823810000 (Number (Fin 8639999999999000)) = NaN
   \<and> nextHour (fixedZone 0) 1686823810000
        (Number (nextHour (fixedZone 0) 1686823810000 (Number (Fin 8639999999999000))))
        = Fin 1686823200000"
  by code_simp

section \<open>Properties of the rolling scheduler\<close>

lemma fill_undefined_setting: "sets tm = None \<Longrightarrow> fill tz clock tm sets (k, q) = Inr (k, q)"
  by (subst fill.simps) simp

lemma fill_done:
  "sets tm = Some n \<Longrightarrow> \<not> int (length q) < n \<Longrightarrow> fill tz clock tm sets (k, q) = Inr (k, q)"
  by (subst fill.simps) simp

lemma fill_TypeError:
  "sets tm = Some n \<Longrightarrow> int (length q) < n \<Longrightarrow> calculator tm = None
     \<Longrightarrow> fill tz clock tm sets (k, q) = Inl TypeError"
  by (subst fill.simps) simp

lemma fill_step:
  "sets tm = Some n \<Longrightarrow> int (length q) < n \<Longrightarrow> calculator tm = Some f
     \<Longrightarrow> fill tz clock tm sets (k, q) =
         fill tz clock tm sets
           (if ToBoolean (tail_entry q) then k else Suc k, q @ [f tz (clock k) (tail_entry q)])"
  by (subst fill.simps) simp

subsection \<open>Claim C3: at most one callback\<close>

text \<open>
  Claim C3. For every state of the module, every host and every call of \<^verbatim>\<open>every\<close>,
  \<^verbatim>\<open>doSomething\<close> is called at most once during the call. After the fill, only the front
  entry is compared with the clock: either nothing is called and the queue is the filled
  queue, or the front entry is before the clock reading, it alone is removed, and
  \<^verbatim>\<open>doSomething\<close> is called once with its timestamp. A call that throws calls nothing.
\<close>

theorem C3_every_fires_at_most_once:
  "length (callbacks (every tz clock k tm st)) \<le> 1
   \<and> (case fill tz clock tm (settings st) (k, upcomming st) of
         Inl e \<Rightarrow> every tz clock k tm st = Inl e
       | Inr (k1, q) \<Rightarrow>
           every tz clock k tm st = Inr (st\<lparr>upcomming := q\<rparr>, Suc k1, [])
           \<or> (\<exists>front rest. q = front # rest \<and> num_lt front (Fin (clock k1))
                 \<and> every tz clock k tm st =
                     Inr (st\<lparr>now := Number front, upcomming := rest\<rparr>, Suc k1,
                          [unixToMilitary front])))"
  by (auto simp: every_def callbacks_def split: sum.splits list.splits prod.splits)

text \<open>Three entries in the past: one call pops and reports only the first.\<close>

lemma C3_example:
  "callbacks (every (fixedZone 0) (\<lambda>k. 1686823810000) 0 Key_nextMinute
      \<lparr>now = Undefined, upcomming = [Fin 1000, Fin 2000, Fin 3000],
       settings = [Key_nextMinute \<mapsto> 3]\<rparr>) = [''1970/01/01/00/00'']
   \<and> queue_after (every (fixedZone 0) (\<lambda>k. 1686823810000) 0 Key_nextMinute
      \<lparr>now = Undefined, upcomming = [Fin 1000, Fin 2000, Fin 3000],
       settings = [Key_nextMinute \<mapsto> 3]\<rparr>) = [Fin 2000, Fin 3000]"
  by code_simp

subsection \<open>Claim C6: the first tick\<close>





subsection \<open>Claim C7: padding of the queue\<close>

text \<open>
  For hours, minutes and seconds the fill pads the queue and keeps it in order, on a host
  with a fixed offset whose clock reads between one hour after the epoch and a bound \<open>B\<close>
  that leaves room below the end of the range of time values.
\<close>

lemma queue_inv_snoc:
  assumes "queue_inv good B vs" "good w" "0 < w" "w \<le> B + (int (length vs) + 1) * 3600000"
    and "vs \<noteq> [] \<Longrightarrow> last vs \<le> w"
  shows "queue_inv good B (vs @ [w])"
proof -
  have s: "sorted vs" and a: "\<forall>v \<in> set vs. good v \<and> 0 < v \<and> v \<le> B + int (length vs) * 3600000"
    using assms(1) by (simp_all add: queue_inv_def list_all_iff)
  have le: "\<forall>v \<in> set vs. v \<le> w"
  proof
    fix v assume v: "v \<in> set vs"
    then have ne: "vs \<noteq> []" by auto
    then have "vs = butlast vs @ [last vs]" by simp
    then have "sorted (butlast vs @ [last vs])" using s by simp
    then have "\<forall>x \<in> set (butlast vs). x \<le> last vs" by (simp add: sorted_append)
    moreover have "v \<in> set (butlast vs) \<or> v = last vs"
      using v ne by (metis Un_iff append_butlast_last_id empty_iff insert_iff list.set(1)
          list.simps(15) set_append)
    ultimately have "v \<le> last vs" by auto
    with assms(5) [OF ne] show "v \<le> w" by simp
  qed
  have "sorted (vs @ [w])" using s le by (simp add: sorted_append)
  moreover have "\<forall>v \<in> set (vs @ [w]). good v \<and> 0 < v
      \<and> v \<le> B + int (length (vs @ [w])) * 3600000"
    using a assms(2,3,4) by (auto simp: algebra_simps)
  ultimately show ?thesis by (simp add: queue_inv_def list_all_iff)
qed

lemma fill_invariant:
  assumes sets: "sets tm = Some n" and calc: "calculator tm = Some f"
    and step: "\<And>v c. good v \<Longrightarrow> 0 < v \<Longrightarrow> v + 90000000 \<le> maxTime \<Longrightarrow>
        \<exists>w. f tz c (Number (Fin v)) = Fin w \<and> good w \<and> v \<le> w \<and> w \<le> v + 3600000"
    and start: "\<And>c. 3600000 \<le> c \<Longrightarrow> c \<le> B \<Longrightarrow>
        \<exists>w. f tz c Undefined = Fin w \<and> good w \<and> 0 < w \<and> w \<le> c + 3600000"
    and clock: "\<And>j. 3600000 \<le> clock j \<and> clock j \<le> B"
    and room: "B + n * 3600000 + 90000000 \<le> maxTime"
  shows "queue_inv good B vs \<Longrightarrow>
     \<exists>k' vs'. fill tz clock tm sets (k, map Fin vs) = Inr (k', map Fin vs')
        \<and> queue_inv good B vs' \<and> n \<le> int (length vs')
        \<and> int (length vs') \<le> max n (int (length vs))"
proof (induction "nat (n - int (length vs))" arbitrary: k vs rule: less_induct)
  case less
  show ?case
  proof (cases "int (length vs) < n")
    case False
    then have "fill tz clock tm sets (k, map Fin vs) = Inr (k, map Fin vs)"
      using sets by (intro fill_done) simp_all
    with False less.prems show ?thesis by auto
  next
    case True
    have a: "\<forall>v \<in> set vs. good v \<and> 0 < v \<and> v \<le> B + int (length vs) * 3600000"
      using less.prems by (simp add: queue_inv_def list_all_iff)
    obtain w where w: "f tz (clock k) (tail_entry (map Fin vs)) = Fin w"
      "good w" "0 < w" "w \<le> B + (int (length vs) + 1) * 3600000"
      "vs \<noteq> [] \<Longrightarrow> last vs \<le> w"
    proof (cases "vs = []")
      case True
      then show ?thesis
        using start [of "clock k"] clock [of k] that by (auto simp: tail_entry_def)
    next
      case False
      then have l: "last vs \<in> set vs" by simp
      then have lv: "good (last vs)" "0 < last vs" "last vs \<le> B + int (length vs) * 3600000"
        using a by auto
      then have "last vs + 90000000 \<le> maxTime" using True room by (simp add: algebra_simps)
      with step [of "last vs" "clock k"] lv obtain w' where
        "f tz (clock k) (Number (Fin (last vs))) = Fin w'" "good w'" "last vs \<le> w'"
        "w' \<le> last vs + 3600000" by blast
      then show ?thesis
        using that [of w'] False lv by (simp add: tail_entry_def last_map algebra_simps)
    qed
    have inv': "queue_inv good B (vs @ [w])"
      using less.prems w by (intro queue_inv_snoc) simp_all
    have "nat (n - int (length (vs @ [w]))) < nat (n - int (length vs))"
      using True by simp
    from less.hyps [OF this inv'] obtain k' vs' where
      r: "fill tz clock tm sets
            (if ToBoolean (tail_entry (map Fin vs)) then k else Suc k, map Fin (vs @ [w]))
          = Inr (k', map Fin vs')"
        "queue_inv good B vs'" "n \<le> int (length vs')"
        "int (length vs') \<le> max n (int (length (vs @ [w])))"
      by blast
    have "fill tz clock tm sets (k, map Fin vs) = Inr (k', map Fin vs')"
      using sets calc True r(1) w(1) by (subst fill_step [where n = n and f = f]) simp_all
    with r True show ?thesis by auto
  qed
qed

lemma nextMinute_step:
  assumes "date_or_now date c = Fin v" "0 \<le> v" "v + 90000000 \<le> maxTime"
  shows "\<exists>w. nextMinute (fixedZone off) c date = Fin w \<and> v < w \<and> w \<le> v + 3600000"
proof -
  have "0 \<le> (v + off) mod 60000" "(v + off) mod 60000 < 60000" by simp_all
  moreover have "nextMinute (fixedZone off) c date = Fin (v + 60000 - (v + off) mod 60000)"
    using assms by (intro nextMinute_fixed) (simp_all add: maxTime_def)
  ultimately show ?thesis by simp
qed

lemma nextSecond_step:
  assumes "date_or_now date c = Fin v" "0 \<le> v" "v + 90000000 \<le> maxTime"
  shows "\<exists>w. nextSecond (fixedZone off) c date = Fin w \<and> v < w \<and> w \<le> v + 3600000"
proof -
  have "0 \<le> (v + off) mod 1000" "(v + off) mod 1000 < 1000" by simp_all
  moreover have "nextSecond (fixedZone off) c date = Fin (v + 1000 - (v + off) mod 1000)"
    using assms by (intro nextSecond_fixed) (simp_all add: maxTime_def)
  ultimately show ?thesis by simp
qed

lemma nextHour_step:
  assumes "date_or_now date c = Fin v" "0 \<le> v" "v + 90000000 \<le> maxTime"
  shows "\<exists>w. nextHour (fixedZone off) c date = Fin w \<and> (w + off) mod 3600000 = 0
           \<and> v - 1800000 \<le> w \<and> w \<le> v + 3600000
           \<and> ((v + off) mod 3600000 = 0 \<longrightarrow> w = v)"
proof -
  define r where "r = (v + off) mod 3600000"
  define w where "w = v - r + (if 1800000 \<le> r then 3600000 else 0)"
  have r: "0 \<le> r" "r < 3600000" unfolding r_def by simp_all
  have "nextHour (fixedZone off) c date = Fin w"
    unfolding w_def r_def using assms by (intro nextHour_fixed) (simp_all add: maxTime_def)
  moreover have "w + off = ((v + off) div 3600000 + (if 1800000 \<le> r then 1 else 0)) * 3600000"
    unfolding w_def r_def by (simp add: algebra_simps minus_mod_eq_mult_div)
  then have "(w + off) mod 3600000 = 0" by simp
  moreover have "v - 1800000 \<le> w" "w \<le> v + 3600000" "r = 0 \<longrightarrow> w = v"
    using r by (simp_all add: w_def)
  ultimately have "nextHour (fixedZone off) c date = Fin w \<and> (w + off) mod 3600000 = 0
           \<and> v - 1800000 \<le> w \<and> w \<le> v + 3600000
           \<and> ((v + off) mod 3600000 = 0 \<longrightarrow> w = v)"
    unfolding r_def by simp
  then show ?thesis ..
qed

lemma fill_keeps_queue_ordered:
  assumes tm: "tm = Key_nextHour \<or> tm = Key_nextMinute \<or> tm = Key_nextSecond"
    and sets: "sets tm = Some n" "0 \<le> n"
    and q: "sorted vs" "list_all (\<lambda>v. 0 < v \<and> v \<le> B \<and> on_boundary tm off v) vs"
    and clock: "\<And>j. 3600000 \<le> clock j \<and> clock j \<le> B"
    and room: "B + n * 3600000 + 90000000 \<le> maxTime"
  shows "\<exists>k' vs'. fill (fixedZone off) clock tm sets (k, map Fin vs) = Inr (k', map Fin vs')
           \<and> n \<le> int (length vs') \<and> sorted vs'
           \<and> list_all (\<lambda>v. 0 < v \<and> v \<le> B + max n (int (length vs)) * 3600000
                         \<and> on_boundary tm off v) vs'"
proof -
  obtain f where calc: "calculator tm = Some f"
    using tm by auto
  have f: "f = (if tm = Key_nextHour then nextHour else if tm = Key_nextMinute then nextMinute
               else nextSecond)"
    using tm calc by auto
  have inv: "queue_inv (on_boundary tm off) B vs"
    using q by (auto simp: queue_inv_def list_all_iff intro: order_trans)
  have step: "\<exists>w. f (fixedZone off) c (Number (Fin v)) = Fin w \<and> on_boundary tm off w
               \<and> v \<le> w \<and> w \<le> v + 3600000"
    if "on_boundary tm off v" "0 < v" "v + 90000000 \<le> maxTime" for v c
  proof -
    have d: "date_or_now (Number (Fin v)) c = Fin v" and v: "0 \<le> v" using that(2) by simp_all
    from tm consider "tm = Key_nextHour" | "tm = Key_nextMinute" | "tm = Key_nextSecond" by blast
    then show ?thesis
    proof cases
      case 1
      then have "(v + off) mod 3600000 = 0" using that(1) by (simp add: on_boundary_def)
      with nextHour_step [OF d v that(3), of off] 1 show ?thesis
        by (auto simp: f on_boundary_def)
    next
      case 2
      with nextMinute_step [OF d v that(3), of off] show ?thesis
        by (auto simp: f on_boundary_def)
    next
      case 3
      with nextSecond_step [OF d v that(3), of off] show ?thesis
        by (auto simp: f on_boundary_def)
    qed
  qed
  have start: "\<exists>w. f (fixedZone off) c Undefined = Fin w \<and> on_boundary tm off w
               \<and> 0 < w \<and> w \<le> c + 3600000"
    if "3600000 \<le> c" "c \<le> B" for c
  proof -
    have d: "date_or_now Undefined c = Fin c" by simp
    have "0 \<le> n * 3600000" using sets(2) by simp
    then have c: "0 \<le> c" "c + 90000000 \<le> maxTime"
      using that room by linarith+
    from tm consider "tm = Key_nextHour" | "tm = Key_nextMinute" | "tm = Key_nextSecond" by blast
    then show ?thesis
    proof cases
      case 1
      with nextHour_step [OF d c, of off] that(1) show ?thesis
        by (auto simp: f on_boundary_def)
    next
      case 2
      with nextMinute_step [OF d c, of off] that(1) show ?thesis
        by (auto simp: f on_boundary_def)
    next
      case 3
      with nextSecond_step [OF d c, of off] that(1) show ?thesis
        by (auto simp: f on_boundary_def)
    qed
  qed
  from fill_invariant [of sets tm n f "on_boundary tm off" "fixedZone off" B clock vs k,
      OF sets(1) calc step start clock room inv]
  obtain k' vs' where r: "fill (fixedZone off) clock tm sets (k, map Fin vs) = Inr (k', map Fin vs')"
    "queue_inv (on_boundary tm off) B vs'" "n \<le> int (length vs')"
    "int (length vs') \<le> max n (int (length vs))"
    by blast
  have "list_all (\<lambda>v. 0 < v \<and> v \<le> B + max n (int (length vs)) * 3600000
                         \<and> on_boundary tm off v) vs'"
  proof -
    have "B + int (length vs') * 3600000 \<le> B + max n (int (length vs)) * 3600000"
      using r(4) by simp
    then show ?thesis
      using r(2) unfolding queue_inv_def list_all_iff by (auto intro: order_trans)
  qed
  with r show ?thesis by (auto simp: queue_inv_def)
qed

lemma every_keeps_queue_ordered:
  assumes tm: "tm = Key_nextHour \<or> tm = Key_nextMinute \<or> tm = Key_nextSecond"
    and sets: "settings st tm = Some n" "0 \<le> n"
    and q: "upcomming st = map Fin vs" "sorted vs"
      "list_all (\<lambda>v. 0 < v \<and> v \<le> B \<and> on_boundary tm off v) vs"
    and clock: "\<And>j. 3600000 \<le> clock j \<and> clock j \<le> B"
    and room: "B + n * 3600000 + 90000000 \<le> maxTime"
  shows "\<exists>st' k' calls ws. every (fixedZone off) clock k tm st = Inr (st', k', calls)
           \<and> upcomming st' = map Fin ws \<and> sorted ws
           \<and> list_all (\<lambda>v. 0 < v \<and> v \<le> B + max n (int (length vs)) * 3600000
                         \<and> on_boundary tm off v) ws"
proof -
  from fill_keeps_queue_ordered [where sets = "settings st" and k = k and clock = clock, OF tm sets q(2,3) clock room]
  obtain k' vs' where r:
    "fill (fixedZone off) clock tm (settings st) (k, map Fin vs) = Inr (k', map Fin vs')"
    "sorted vs'"
    "list_all (\<lambda>v. 0 < v \<and> v \<le> B + max n (int (length vs)) * 3600000
                         \<and> on_boundary tm off v) vs'"
    by blast
  show ?thesis
  proof (cases vs')
    case Nil
    then have "every (fixedZone off) clock k tm st = Inr (st\<lparr>upcomming := []\<rparr>, Suc k', [])"
      using r(1) by (simp add: every_def q(1))
    moreover have "upcomming (st\<lparr>upcomming := []\<rparr>) = map Fin []" by simp
    ultimately show ?thesis
      unfolding list_all_iff by (metis empty_iff list.set(1) sorted_wrt.simps(1))
  next
    case (Cons v ws)
    have t: "sorted ws" "list_all (\<lambda>v. 0 < v \<and> v \<le> B + max n (int (length vs)) * 3600000
                         \<and> on_boundary tm off v) ws"
      using r(2,3) Cons by simp_all
    show ?thesis
    proof (cases "v < clock k'")
      case True
      then have "every (fixedZone off) clock k tm st
          = Inr (st\<lparr>now := Number (Fin v), upcomming := map Fin ws\<rparr>, Suc k',
                 [unixToMilitary (Fin v)])"
        using r(1) Cons by (simp add: every_def q(1))
      moreover have "upcomming (st\<lparr>now := Number (Fin v), upcomming := map Fin ws\<rparr>) = map Fin ws"
        by simp
      ultimately show ?thesis using t by blast
    next
      case False
      then have "every (fixedZone off) clock k tm st
          = Inr (st\<lparr>upcomming := map Fin vs'\<rparr>, Suc k', [])"
        using r(1) Cons by (simp add: every_def q(1))
      moreover have "upcomming (st\<lparr>upcomming := map Fin vs'\<rparr>) = map Fin vs'" by simp
      ultimately show ?thesis using r(2,3) by blast
    qed
  qed
qed

text \<open>
  Claim C7 at the boundary kind of days, where it fails. The calculator is the property
  \<^verbatim>\<open>nextday\<close> and the queue depth is the property \<^verbatim>\<open>nextDay\<close> of \<^verbatim>\<open>settings\<close>, which
  is \<open>7\<close>. Called with \<^verbatim>\<open>'nextday'\<close> in the initial state, \<^verbatim>\<open>every\<close> finds no depth,
  the loop does not run and the queue stays empty: it is not padded to \<open>7\<close> entries, and
  nothing is ever called. Called with \<^verbatim>\<open>'nextDay'\<close>, it finds the depth and no
  calculator, and throws.
\<close>

theorem C7_day_queue_not_padded:
  "every tz clock k Key_nextday initial = Inr (initial, Suc k, [])
   \<and> upcomming initial = [] \<and> settings initial Key_nextDay = Some 7
   \<and> every tz clock k Key_nextDay initial = Inl TypeError"
  by (simp add: every_def initial_def initial_settings_def fill.simps)

section \<open>Invalid input\<close>

subsection \<open>Claim C9: instants that are not valid time values\<close>

lemma truthy_invalid:
  assumes "TimeClip v = NaN" "v \<noteq> NaN"
  shows "new_Date (date_or_now (Number v) clk) = NaN"
proof (cases v)
  case (Fin n)
  with assms(1) have "n \<noteq> 0" by (auto simp: maxTime_def split: if_splits)
  with Fin assms(1) show ?thesis by (simp add: new_Date_def)
qed (use assms in \<open>simp_all add: new_Date_def\<close>)

lemma getters_NaN:
  "getDate tz NaN = NaN" "getHours tz NaN = NaN" "getMinutes tz NaN = NaN"
  "getSeconds tz NaN = NaN" "getMilliseconds tz NaN = NaN"
  "getUTCFullYear NaN = NaN" "getUTCMonth NaN = NaN" "getUTCDate NaN = NaN"
  "getUTCHours NaN = NaN" "getUTCMinutes NaN = NaN"
  by (simp_all add: getDate_def getHours_def getMinutes_def getSeconds_def getMilliseconds_def
      getUTCFullYear_def getUTCMonth_def getUTCDate_def getUTCHours_def getUTCMinutes_def)

lemma calculators_of_invalid_Date:
  assumes "new_Date (date_or_now date clk) = NaN"
  shows "nextday tz clk date = NaN" "nextHour tz clk date = NaN"
    "nextMinute tz clk date = NaN" "nextSecond tz clk date = NaN"
  using assms
  by (simp_all add: nextday_def nextHour_def nextMinute_def nextSecond_def getters_NaN num_gt_def
      new_Date_def)

lemma unixToMilitary_invalid:
  "TimeClip v = NaN \<Longrightarrow> unixToMilitary v = ''NaN/NaN/NaN/NaN/NaN''"
  by (simp add: unixToMilitary_def new_Date_def getters_NaN padStart_def)

text \<open>
  Claim C9, as amended. No function of the module raises an \<open>InvalidInput\<close> error. For
  every Number that is not a valid time value (an infinity, or a finite Number beyond
  \<open>maxTime\<close> in magnitude), on every host, each of the four calculators returns \<open>NaN\<close>
  and \<open>unixToMilitary\<close> returns the string \<^verbatim>\<open>NaN/NaN/NaN/NaN/NaN\<close>, as it also does for
  \<open>NaN\<close>. A calculator that is given \<open>NaN\<close> treats it as no argument and works from the
  clock.
\<close>

theorem C9_invalid_instant_gives_NaN:
  "(TimeClip v = NaN \<and> v \<noteq> NaN \<longrightarrow>
      nextday tz clk (Number v) = NaN \<and> nextHour tz clk (Number v) = NaN
      \<and> nextMinute tz clk (Number v) = NaN \<and> nextSecond tz clk (Number v) = NaN)
   \<and> (TimeClip v = NaN \<longrightarrow> unixToMilitary v = ''NaN/NaN/NaN/NaN/NaN'')
   \<and> nextday tz clk (Number NaN) = nextday tz clk Undefined
   \<and> nextHour tz clk (Number NaN) = nextHour tz clk Undefined
   \<and> nextMinute tz clk (Number NaN) = nextMinute tz clk Undefined
   \<and> nextSecond tz clk (Number NaN) = nextSecond tz clk Undefined"
  using calculators_of_invalid_Date [OF truthy_invalid, where tz = tz and clk = clk and v1 = v]
    unixToMilitary_invalid [of v]
  by (simp add: nextday_def nextHour_def nextMinute_def nextSecond_def)

text \<open>The amended claim at positive infinity.\<close>

theorem C9_witness:
  "TimeClip PInf = NaN \<and> PInf \<noteq> NaN
   \<and> nextday (fixedZone 0) 5 (Number PInf) = NaN \<and> nextHour (fixedZone 0) 5 (Number PInf) = NaN
   \<and> nextMinute (fixedZone 0) 5 (Number PInf) = NaN \<and> nextSecond (fixedZone 0) 5 (Number PInf) = NaN
   \<and> unixToMilitary PInf = ''NaN/NaN/NaN/NaN/NaN''"
  using C9_invalid_instant_gives_NaN [of PInf "fixedZone 0" 5] by simp

text \<open>
  The claim as stated fails: there is no \<^verbatim>\<open>throw\<close> in the module, and the functions
  return \<open>NaN\<close>, a string of \<open>NaN\<close>s, or for the argument \<open>NaN\<close> the boundary after the
  clock reading.
\<close>

theorem C9_counterexample:
  "nextday (fixedZone 0) 1686823810000 (Number (Fin 8640000000000001)) = NaN
   \<and> nextHour (fixedZone 0) 1686823810000 (Number NInf) = NaN
   \<and> nextMinute (fixedZone 0) 1686823810000 (Number PInf) = NaN
   \<and> nextSecond (fixedZone 0) 1686823810000 (Number PInf) = NaN
   \<and> unixToMilitary NaN = ''NaN/NaN/NaN/NaN/NaN''
   \<and> nextMinute (fixedZone 0) 1686823810000 (Number NaN) = Fin 1686823860000"
  by code_simp

subsection \<open>Claim C8: malformed timestamps\<close>

lemma Date_UTC_partial_NaN:
  "Some NaN \<in> set args \<Longrightarrow> Date_UTC_partial args = Some NaN"
  by (auto simp: Date_UTC_partial_def list_ex_iff isFinite_def intro!: bexI [of _ "Some NaN"])

lemma militaryToUnix_field_NaN:
  assumes "i < 5" "ToNumber (element (split CHR ''/'' s) i) = Some NaN"
  shows "militaryToUnix s = Some NaN"
proof -
  from assms(1) consider "i = 0" | "i = 1" | "i = 2" | "i = 3" | "i = 4" by linarith
  then show ?thesis
    using assms(2)
    by cases (simp_all add: militaryToUnix_def Let_def Date_UTC_partial_NaN)
qed

text \<open>
  Claim C8, as amended. \<open>militaryToUnix\<close> raises no parsing error. For every input string
  with fewer than five fields, and for every input string one of whose first five fields
  converts to \<open>NaN\<close> (it is neither empty nor a numeric literal), it returns \<open>NaN\<close>.
  Fields after the fifth are ignored: two inputs with the same first five fields have
  the same result.
\<close>

theorem C8_malformed_string_gives_NaN:
  "(length (split CHR ''/'' s) < 5 \<longrightarrow> militaryToUnix s = Some NaN)
   \<and> (i < 5 \<and> i < length (split CHR ''/'' s) \<and> StringToNumber (split CHR ''/'' s ! i) = Some NaN
        \<longrightarrow> militaryToUnix s = Some NaN)
   \<and> (take 5 (split CHR ''/'' s) = take 5 (split CHR ''/'' s') \<longrightarrow>
        militaryToUnix s = militaryToUnix s')"
proof (intro conjI impI)
  assume "length (split CHR ''/'' s) < 5"
  then have "ToNumber (element (split CHR ''/'' s) 4) = Some NaN"
    by (simp add: element_def)
  then show "militaryToUnix s = Some NaN"
    by (intro militaryToUnix_field_NaN [of 4]) simp_all
next
  assume "i < 5 \<and> i < length (split CHR ''/'' s) \<and> StringToNumber (split CHR ''/'' s ! i) = Some NaN"
  then show "militaryToUnix s = Some NaN"
    by (intro militaryToUnix_field_NaN [of i]) (simp_all add: element_def)
next
  assume t: "take 5 (split CHR ''/'' s) = take 5 (split CHR ''/'' s')"
  have "element (split CHR ''/'' s) j = element (split CHR ''/'' s') j" if "j < 5" for j
  proof -
    have "element fs j = element (take 5 fs) j" for fs :: "string list"
      using that by (simp add: element_def)
    then show ?thesis using t by metis
  qed
  then show "militaryToUnix s = militaryToUnix s'"
    by (simp add: militaryToUnix_def Let_def)
qed

text \<open>The three parts of the amended claim at concrete strings.\<close>

theorem C8_witness:
  "length (split CHR ''/'' ''2023/06/15'') < 5 \<and> militaryToUnix ''2023/06/15'' = Some NaN
   \<and> (1::nat) < 5 \<and> 1 < length (split CHR ''/'' ''2023/xx/15/10/10'')
   \<and> StringToNumber (split CHR ''/'' ''2023/xx/15/10/10'' ! 1) = Some NaN
   \<and> militaryToUnix ''2023/xx/15/10/10'' = Some NaN
   \<and> take 5 (split CHR ''/'' ''2023/06/15/10/10/99'') = take 5 (split CHR ''/'' ''2023/06/15/10/10'')
   \<and> militaryToUnix ''2023/06/15/10/10/99'' = militaryToUnix ''2023/06/15/10/10''"
proof -
  have a: "length (split CHR ''/'' ''2023/06/15'') < 5" by code_simp
  have b: "1 < length (split CHR ''/'' ''2023/xx/15/10/10'')
    \<and> StringToNumber (split CHR ''/'' ''2023/xx/15/10/10'' ! 1) = Some NaN" by code_simp
  have c: "take 5 (split CHR ''/'' ''2023/06/15/10/10/99'') = take 5 (split CHR ''/'' ''2023/06/15/10/10'')"
    by code_simp
  show ?thesis
    using C8_malformed_string_gives_NaN [of "''2023/06/15''" 0 "''2023/06/15''"]
      C8_malformed_string_gives_NaN [of "''2023/xx/15/10/10''" 1 "''2023/xx/15/10/10''"]
      C8_malformed_string_gives_NaN [of "''2023/06/15/10/10/99''" 0 "''2023/06/15/10/10''"]
      a b c
    by simp
qed

text \<open>
  The claim as stated fails: an input of six fields returns the instant of its first
  five, and inputs with three fields or with a field that is not a number return \<open>NaN\<close>,
  which is a result and not an error.
\<close>

theorem C8_counterexample:
  "length (split CHR ''/'' ''2023/06/15/10/10/99'') = 6
   \<and> militaryToUnix ''2023/06/15/10/10/99'' = Some (Fin 1686823800000)
   \<and> length (split CHR ''/'' ''2023/06/15'') = 3
   \<and> militaryToUnix ''2023/06/15'' = Some NaN
   \<and> StringToNumber ''xx'' = Some NaN
   \<and> militaryToUnix ''2023/xx/15/10/10'' = Some NaN"
  by code_simp

section \<open>The round trip of the codec\<close>

subsection \<open>Numbers to strings and back\<close>

lemma digit_char_table:
  "list_all (\<lambda>n. isDigit (digit_char n) \<and> digit_value (digit_char n) = int n
      \<and> digit_char n \<noteq> CHR ''/'' \<and> digit_char n \<noteq> CHR ''-'' \<and> digit_char n \<noteq> CHR ''+''
      \<and> \<not> isWhiteSpace (digit_char n)) [0..<10]"
  by code_simp

lemma digit_char_props:
  assumes "n < 10"
  shows "isDigit (digit_char n)" "digit_value (digit_char n) = int n"
    "digit_char n \<noteq> CHR ''/''" "digit_char n \<noteq> CHR ''-''" "digit_char n \<noteq> CHR ''+''"
    "\<not> isWhiteSpace (digit_char n)"
proof -
  have "n \<in> set [0..<10]" using assms by simp
  with digit_char_table have "isDigit (digit_char n) \<and> digit_value (digit_char n) = int n
      \<and> digit_char n \<noteq> CHR ''/'' \<and> digit_char n \<noteq> CHR ''-'' \<and> digit_char n \<noteq> CHR ''+''
      \<and> \<not> isWhiteSpace (digit_char n)"
    unfolding list_all_iff by blast
  then show "isDigit (digit_char n)" "digit_value (digit_char n) = int n"
    "digit_char n \<noteq> CHR ''/''" "digit_char n \<noteq> CHR ''-''" "digit_char n \<noteq> CHR ''+''"
    "\<not> isWhiteSpace (digit_char n)" by simp_all
qed

lemma digits_nonempty: "digits n \<noteq> []"
  by (subst digits.simps) simp

lemma digits_all:
  "list_all (\<lambda>c. isDigit c \<and> c \<noteq> CHR ''/'' \<and> c \<noteq> CHR ''-'' \<and> c \<noteq> CHR ''+''
      \<and> \<not> isWhiteSpace c) (digits n)"
proof (induction n rule: digits.induct)
  case (1 n)
  show ?case
  proof (cases "n < 10")
    case True
    then show ?thesis by (subst digits.simps) (simp add: digit_char_props)
  next
    case False
    then show ?thesis using 1 by (subst digits.simps) (simp add: digit_char_props)
  qed
qed

lemma decimal_value_snoc: "decimal_value (s @ [c]) = 10 * decimal_value s + digit_value c"
  by (simp add: decimal_value_def)

lemma decimal_value_digits: "decimal_value (digits n) = int n"
proof (induction n rule: digits.induct)
  case (1 n)
  show ?case
  proof (cases "n < 10")
    case True
    then show ?thesis
      by (subst digits.simps) (simp add: decimal_value_def digit_char_props)
  next
    case False
    then have "decimal_value (digits n) = 10 * int (n div 10) + int (n mod 10)"
      using 1 by (subst digits.simps) (simp add: decimal_value_snoc digit_char_props)
    then show ?thesis by (simp add: zdiv_int zmod_int)
  qed
qed

lemma split_field:
  "sep \<notin> set f \<Longrightarrow> split sep (f @ sep # rest) = f # split sep rest"
  by (induction f) auto

lemma split_last_field: "sep \<notin> set f \<Longrightarrow> split sep f = [f]"
  by (induction f) auto

lemma dropWhile_none: "list_all (\<lambda>c. \<not> P c) s \<Longrightarrow> dropWhile P s = s"
  by (cases s) simp_all

lemma trim_no_space: "list_all (\<lambda>c. \<not> isWhiteSpace c) s \<Longrightarrow> trim s = s"
  by (simp add: trim_def dropWhile_none)

lemma decimal_value_zero: "decimal_value (CHR ''0'' # s) = decimal_value s"
  by (simp add: decimal_value_def digit_value_def)

lemma decimal_value_zeros: "decimal_value (replicate k CHR ''0'' @ s) = decimal_value s"
  by (induction k) (simp_all add: decimal_value_zero)

lemma isDigit_zero: "isDigit CHR ''0''" "\<not> isWhiteSpace CHR ''0''"
  by (simp_all add: isDigit_def isWhiteSpace_def)

lemma not_Infinity: "list_all isDigit s \<Longrightarrow> s \<noteq> ''Infinity''"
  by (auto simp: isDigit_def)

lemma digits_facts:
  "list_all isDigit (digits n)" "list_all (\<lambda>c. \<not> isWhiteSpace c) (digits n)"
  "CHR ''/'' \<notin> set (digits n)" "hd (digits n) \<noteq> CHR ''-''" "hd (digits n) \<noteq> CHR ''+''"
proof -
  have a: "\<forall>c \<in> set (digits n). isDigit c \<and> c \<noteq> CHR ''/'' \<and> c \<noteq> CHR ''-'' \<and> c \<noteq> CHR ''+''
      \<and> \<not> isWhiteSpace c"
    using digits_all [of n] unfolding list_all_iff .
  have h: "hd (digits n) \<in> set (digits n)"
    using digits_nonempty [of n] by (rule hd_in_set)
  show "list_all isDigit (digits n)" "list_all (\<lambda>c. \<not> isWhiteSpace c) (digits n)"
    using a unfolding list_all_iff by blast+
  show "CHR ''/'' \<notin> set (digits n)" using a by blast
  show "hd (digits n) \<noteq> CHR ''-''" "hd (digits n) \<noteq> CHR ''+''" using a h by blast+
qed

lemma StringToNumber_decimal:
  assumes "trim str = s" "s \<noteq> []" "stripSign s \<noteq> ''Infinity''"
    and "isDecimalDigits (stripSign s)"
    and "v = (if hd s = CHR ''-'' then - decimal_value (stripSign s)
              else decimal_value (stripSign s))"
    and "\<bar>v\<bar> \<le> literalBound"
  shows "StringToNumber str = Some (Fin v)"
  using assms by (simp add: StringToNumber_def Let_def)

lemma StringToNumber_unsigned:
  assumes "int n \<le> literalBound"
  shows "StringToNumber (replicate k CHR ''0'' @ digits n) = Some (Fin (int n))"
proof -
  define s where "s = replicate k CHR ''0'' @ digits n"
  have set_s: "set s \<subseteq> insert CHR ''0'' (set (digits n))"
    by (auto simp: s_def)
  have all: "\<forall>c \<in> set s. isDigit c \<and> \<not> isWhiteSpace c \<and> c \<noteq> CHR ''-'' \<and> c \<noteq> CHR ''+''"
  proof
    fix c assume "c \<in> set s"
    with set_s have "c = CHR ''0'' \<or> c \<in> set (digits n)" by blast
    then show "isDigit c \<and> \<not> isWhiteSpace c \<and> c \<noteq> CHR ''-'' \<and> c \<noteq> CHR ''+''"
    proof
      assume "c = CHR ''0''"
      then show ?thesis by (simp add: isDigit_def isWhiteSpace_def)
    next
      assume "c \<in> set (digits n)"
      then show ?thesis using digits_all [of n] unfolding list_all_iff by blast
    qed
  qed
  have ne: "s \<noteq> []" using digits_nonempty [of n] by (simp add: s_def)
  then have hd: "hd s \<in> set s" by (rule hd_in_set)
  have d: "list_all isDigit s" and w: "list_all (\<lambda>c. \<not> isWhiteSpace c) s"
    using all unfolding list_all_iff by blast+
  have h: "hd s \<noteq> CHR ''-''" "hd s \<noteq> CHR ''+''" using all hd by blast+
  have st: "stripSign s = s"
  proof (cases s)
    case Nil
    with ne show ?thesis by simp
  next
    case (Cons c cs)
    with h show ?thesis by simp
  qed
  have v: "decimal_value s = int n"
    by (simp add: s_def decimal_value_zeros decimal_value_digits)
  have "StringToNumber s = Some (Fin (int n))"
  proof (rule StringToNumber_decimal [where s = s])
    show "trim s = s" by (rule trim_no_space [OF w])
    show "s \<noteq> []" by (rule ne)
    show "stripSign s \<noteq> ''Infinity''" unfolding st by (rule not_Infinity [OF d])
    show "isDecimalDigits (stripSign s)" unfolding st isDecimalDigits_def using ne d by simp
    show "int n = (if hd s = CHR ''-'' then - decimal_value (stripSign s)
              else decimal_value (stripSign s))" unfolding st using h(1) v by simp
    show "\<bar>int n\<bar> \<le> literalBound" using assms by simp
  qed
  then show ?thesis by (simp only: s_def)
qed

lemma StringToNumber_negative:
  assumes "int n \<le> literalBound"
  shows "StringToNumber (CHR ''-'' # digits n) = Some (Fin (- int n))"
proof -
  define ds where "ds = digits n"
  have d: "list_all isDigit ds" and w: "list_all (\<lambda>c. \<not> isWhiteSpace c) ds" and ne: "ds \<noteq> []"
    using digits_facts(1,2) [of n] digits_nonempty [of n] by (simp_all add: ds_def)
  have v: "decimal_value ds = int n" by (simp add: ds_def decimal_value_digits)
  have "StringToNumber (CHR ''-'' # ds) = Some (Fin (- int n))"
  proof (rule StringToNumber_decimal [where s = "CHR ''-'' # ds"])
    have "list_all (\<lambda>c. \<not> isWhiteSpace c) (CHR ''-'' # ds)"
      using w by (simp add: isWhiteSpace_def)
    then show "trim (CHR ''-'' # ds) = CHR ''-'' # ds" by (rule trim_no_space)
    show "CHR ''-'' # ds \<noteq> []" by simp
    show "stripSign (CHR ''-'' # ds) \<noteq> ''Infinity''" using not_Infinity [OF d] by simp
    show "isDecimalDigits (stripSign (CHR ''-'' # ds))" using d ne by (simp add: isDecimalDigits_def)
    show "- int n = (if hd (CHR ''-'' # ds) = CHR ''-'' then - decimal_value (stripSign (CHR ''-'' # ds))
              else decimal_value (stripSign (CHR ''-'' # ds)))" using v by simp
    show "\<bar>- int n\<bar> \<le> literalBound" using assms by simp
  qed
  then show ?thesis by (simp only: ds_def)
qed

lemma StringToNumber_toString:
  assumes "\<bar>n\<bar> \<le> literalBound"
  shows "StringToNumber (Number_toString (Fin n)) = Some (Fin n)"
proof (cases "n < 0")
  case True
  then show ?thesis using StringToNumber_negative [of "nat (- n)"] assms by simp
next
  case False
  then show ?thesis using StringToNumber_unsigned [of "nat n" 0] assms by simp
qed

lemma StringToNumber_padStart:
  assumes "0 \<le> n" "n \<le> literalBound"
  shows "StringToNumber (padStart 2 CHR ''0'' (Number_toString (Fin n))) = Some (Fin n)"
  using StringToNumber_unsigned [of "nat n" "2 - length (digits (nat n))"] assms
  by (simp add: padStart_def)

lemma no_slash_toString:
  "CHR ''/'' \<notin> set (Number_toString (Fin n))"
  "0 \<le> n \<Longrightarrow> CHR ''/'' \<notin> set (padStart 2 CHR ''0'' (Number_toString (Fin n)))"
  using digits_facts(3) by (auto simp: padStart_def)

subsection \<open>Decoding an encoded time value\<close>

lemma YearFromTime_range:
  assumes "- maxTime \<le> t" "t \<le> maxTime"
  shows "- 271821 \<le> YearFromTime t \<and> YearFromTime t \<le> 275760"
proof -
  have d: "- 100000000 \<le> Day t" "Day t \<le> 100000000"
    using assms div_bounds [of 86400000 t] by (simp_all add: Day_def msPerDay_def maxTime_def)
  have "DayFromYear (- 271821) \<le> Day t" using d(1) by (simp add: DayFromYear_def)
  then have lo: "- 271821 \<le> YearFromTime t" by (rule DayFromYear_YearFromTime(2))
  have "Day t < DayFromYear 275761" using d(2) by (simp add: DayFromYear_def)
  then have "DayFromYear (YearFromTime t) < DayFromYear 275761"
    using DayFromYear_YearFromTime(1) [of t] by linarith
  then have "\<not> 275761 \<le> YearFromTime t"
    using DayFromYear_mono [of 275761 "YearFromTime t"] by linarith
  with lo show ?thesis by simp
qed

lemma Date_UTC_fields:
  assumes "\<not> (0 \<le> YearFromTime t \<and> YearFromTime t \<le> 99)"
  shows "Date_UTC (Fin (YearFromTime t)) (Fin (MonthFromTime t)) (Fin (DateFromTime t))
           (Fin (HourFromTime t)) (Fin (MinFromTime t)) = TimeClip (Fin (t - t mod 60000))"
proof -
  have y: "MakeFullYear (Fin (YearFromTime t)) = Fin (YearFromTime t)"
    using assms by auto
  have "Day t * msPerDay + (HourFromTime t * msPerHour + MinFromTime t * msPerMinute
          + 0 * msPerSecond + 0) = t - t mod 60000"
    using time_fields(2) [of t] by (simp add: msPerDay_def msPerHour_def msPerMinute_def)
  then show ?thesis
    unfolding Date_UTC_def y MakeDay_fields by (simp del: TimeClip.simps)
qed

lemma floor_minute_range:
  assumes "- maxTime \<le> t" "t \<le> maxTime"
  shows "TimeClip (Fin (t - t mod 60000)) = Fin (t - t mod 60000)"
proof -
  have "0 \<le> t mod 60000" by simp
  moreover have "- 144000000000 \<le> t div 60000"
    using assms(1) div_bounds [of 60000 t] by (simp add: maxTime_def)
  moreover have "t - t mod 60000 = 60000 * (t div 60000)"
    by (simp add: minus_mod_eq_mult_div)
  ultimately show ?thesis using assms by (simp add: maxTime_def)
qed

lemma unixToMilitary_valid:
  assumes "- maxTime \<le> t" "t \<le> maxTime"
  shows "unixToMilitary (Fin t) =
     Number_toString (Fin (YearFromTime t)) @ CHR ''/'' #
     padStart 2 CHR ''0'' (Number_toString (Fin (MonthFromTime t + 1))) @ CHR ''/'' #
     padStart 2 CHR ''0'' (Number_toString (Fin (DateFromTime t))) @ CHR ''/'' #
     padStart 2 CHR ''0'' (Number_toString (Fin (HourFromTime t))) @ CHR ''/'' #
     padStart 2 CHR ''0'' (Number_toString (Fin (MinFromTime t)))"
  by (simp add: unixToMilitary_def Let_def new_Date_def TimeClip_Fin [OF assms]
      getUTCFullYear_def getUTCMonth_def getUTCDate_def getUTCHours_def getUTCMinutes_def
      del: Number_toString.simps TimeClip.simps)

lemma split_unixToMilitary:
  assumes "- maxTime \<le> t" "t \<le> maxTime"
  shows "split CHR ''/'' (unixToMilitary (Fin t)) =
     [Number_toString (Fin (YearFromTime t)),
      padStart 2 CHR ''0'' (Number_toString (Fin (MonthFromTime t + 1))),
      padStart 2 CHR ''0'' (Number_toString (Fin (DateFromTime t))),
      padStart 2 CHR ''0'' (Number_toString (Fin (HourFromTime t))),
      padStart 2 CHR ''0'' (Number_toString (Fin (MinFromTime t)))]"
proof -
  have m: "0 \<le> MonthFromTime t + 1" using MonthFromTime_range [of t] by simp
  have d: "0 \<le> DateFromTime t" using DateFromTime_range [of t] by simp
  have h: "0 \<le> HourFromTime t" "0 \<le> MinFromTime t" by (rule field_ranges)+
  show ?thesis
    unfolding unixToMilitary_valid [OF assms]
    by (simp only: split_field split_last_field no_slash_toString m d h not_False_eq_True)
qed

text \<open>
  The round trip of claim C2 holds at every valid time value whose UTC year is not one of
  the years 0 to 99.
\<close>

lemma round_trip_outside_years_0_to_99:
  assumes "- maxTime \<le> t" "t \<le> maxTime"
    and "\<not> (0 \<le> YearFromTime t \<and> YearFromTime t \<le> 99)"
  shows "militaryToUnix (unixToMilitary (Fin t)) = Some (Fin (t - t mod 60000))"
proof -
  have y: "\<bar>YearFromTime t\<bar> \<le> literalBound"
    using YearFromTime_range [OF assms(1,2)] by (simp add: literalBound_def abs_le_iff)
  have m: "0 \<le> MonthFromTime t + 1" "MonthFromTime t + 1 \<le> literalBound"
    using MonthFromTime_range [of t] by (simp_all add: literalBound_def)
  have d: "0 \<le> DateFromTime t" "DateFromTime t \<le> literalBound"
    using DateFromTime_range [of t] by (simp_all add: literalBound_def)
  have h: "0 \<le> HourFromTime t" "HourFromTime t \<le> literalBound"
    "0 \<le> MinFromTime t" "MinFromTime t \<le> literalBound"
    using field_ranges [of t] by (simp_all add: literalBound_def)
  have "militaryToUnix (unixToMilitary (Fin t)) =
    Date_UTC_partial [Some (Fin (YearFromTime t)), Some (Fin (MonthFromTime t)),
      Some (Fin (DateFromTime t)), Some (Fin (HourFromTime t)), Some (Fin (MinFromTime t))]"
    unfolding militaryToUnix_def split_unixToMilitary [OF assms(1,2)]
    by (simp add: Let_def element_def StringToNumber_toString [OF y]
        StringToNumber_padStart [OF m] StringToNumber_padStart [OF d]
        StringToNumber_padStart [OF h(1,2)] StringToNumber_padStart [OF h(3,4)]
        del: Number_toString.simps)
  also have "\<dots> = Some (Date_UTC (Fin (YearFromTime t)) (Fin (MonthFromTime t))
      (Fin (DateFromTime t)) (Fin (HourFromTime t)) (Fin (MinFromTime t)))"
    by (simp add: Date_UTC_partial_def isFinite_def)
  also have "\<dots> = Some (Fin (t - t mod 60000))"
    unfolding Date_UTC_fields [OF assms(3)] floor_minute_range [OF assms(1,2)] ..
  finally show ?thesis .
qed

subsection \<open>Claim C2\<close>

text \<open>
  Claim C2 at the instant 0050-01-01T00:00:00Z, which is a valid time value on a minute
  boundary. \<open>unixToMilitary\<close> writes the year as \<^verbatim>\<open>50\<close>, and \<^verbatim>\<open>Date.UTC\<close> reads a year
  from 0 to 99 as a year of the twentieth century: the round trip returns
  1950-01-01T00:00:00Z and not the instant it started from. At every valid time value
  of another year the round trip is the one the claim states
  (\<open>round_trip_outside_years_0_to_99\<close>).
\<close>

theorem C2_two_digit_year_decodes_as_1900s:
  "unixToMilitary (Fin (- 60589296000000)) = ''50/01/01/00/00''
   \<and> militaryToUnix (unixToMilitary (Fin (- 60589296000000))) = Some (Fin (- 631152000000))
   \<and> - 60589296000000 - (- 60589296000000) mod 60000 = (- 60589296000000 :: int)
   \<and> unixToMilitary (Fin (- 631152000000)) = ''1950/01/01/00/00''"
  by code_simp

end
